theory Spec2Isabelle
  imports Main "HOL-Library.Log_Nat"
begin

section \<open>Python built-ins used by \<^verbatim>\<open>scrap.py\<close>\<close>

text \<open>
  A Python \<^verbatim>\<open>str\<close> is the list of its Unicode code points, so that \<open>length\<close> is Python's
  \<^verbatim>\<open>len\<close>; a literal of the program is written \<open>ascii ''...''\<close>. Every exception the
  modelled code can raise is a value of \<open>py_error\<close>, and a computation that can raise
  returns \<open>py_error + 'a\<close>, with \<open>Inl\<close> for the exception. The exceptions are those of
  class \<^verbatim>\<open>Exception\<close>, which \<^verbatim>\<open>except Exception\<close> catches.
\<close>

datatype py_error =
  ValueError | OverflowError | KeyError
  | WebDriverException | TimeoutException | JavascriptException
  | StaleElementReferenceException | OperationalError | InterfaceError

text \<open>Sequencing of computations that can raise: the first exception ends the
  evaluation, as in Python.\<close>

definition py_bind :: "py_error + 'a \<Rightarrow> ('a \<Rightarrow> py_error + 'b) \<Rightarrow> py_error + 'b" where
  "py_bind m f = (case m of Inl e \<Rightarrow> Inl e | Inr x \<Rightarrow> f x)"

subsection \<open>Strings\<close>

type_synonym str = "nat list"

definition ascii :: "string \<Rightarrow> str" where
  "ascii s = map of_char s"

text \<open>The code points for which \<^verbatim>\<open>str.isspace\<close> holds: \<^verbatim>\<open>\t \n \v \f \r\<close>, the
  separators \<^verbatim>\<open>0x1c .. 0x1f\<close>, the space, and beyond ASCII \<^verbatim>\<open>U+0085\<close>, \<^verbatim>\<open>U+00A0\<close>,
  \<^verbatim>\<open>U+1680\<close>, \<^verbatim>\<open>U+2000 .. U+200A\<close>, \<^verbatim>\<open>U+2028\<close>, \<^verbatim>\<open>U+2029\<close>, \<^verbatim>\<open>U+202F\<close>, \<^verbatim>\<open>U+205F\<close>
  and \<^verbatim>\<open>U+3000\<close>.\<close>

definition py_isspace :: "nat \<Rightarrow> bool" where
  "py_isspace c =
     ((0x09 \<le> c \<and> c \<le> 0x0D) \<or> (0x1C \<le> c \<and> c \<le> 0x20) \<or> c = 0x85 \<or> c = 0xA0
      \<or> c = 0x1680 \<or> (0x2000 \<le> c \<and> c \<le> 0x200A) \<or> c = 0x2028 \<or> c = 0x2029
      \<or> c = 0x202F \<or> c = 0x205F \<or> c = 0x3000)"

definition lstrip :: "str \<Rightarrow> str" where
  "lstrip s = dropWhile py_isspace s"

definition rstrip :: "str \<Rightarrow> str" where
  "rstrip s = rev (dropWhile py_isspace (rev s))"

definition strip :: "str \<Rightarrow> str" where
  "strip s = rstrip (lstrip s)"

definition startswith :: "str \<Rightarrow> str \<Rightarrow> bool" where
  "startswith s p = (take (length p) s = p)"

text \<open>\<^verbatim>\<open>s.replace(old, new)\<close>: every non-overlapping occurrence of \<open>old\<close>, leftmost first.
  For the empty \<open>old\<close> Python puts \<open>new\<close> before every character and at the end.\<close>

function replace_from :: "str \<Rightarrow> str \<Rightarrow> str \<Rightarrow> str" where
  "replace_from old new [] = []"
| "replace_from old new (c # cs) =
     (if old \<noteq> [] \<and> startswith (c # cs) old
      then new @ replace_from old new (drop (length old) (c # cs))
      else c # replace_from old new cs)"
  by pat_completeness auto
termination
  by (relation "measure (\<lambda>(old, new, s). length s)") auto

declare replace_from.simps [simp del]

definition replace :: "str \<Rightarrow> str \<Rightarrow> str \<Rightarrow> str" where
  "replace s old new =
     (if old = [] then new @ concat (map (\<lambda>c. c # new) s) else replace_from old new s)"

text \<open>\<^verbatim>\<open>sub in s\<close> (Python) and \<^verbatim>\<open>s.includes(sub)\<close> (JavaScript): \<open>sub\<close> occurs in \<open>s\<close>.\<close>

fun str_contains :: "str \<Rightarrow> str \<Rightarrow> bool" where
  "str_contains [] sub = (sub = [])"
| "str_contains (c # cs) sub = (startswith (c # cs) sub \<or> str_contains cs sub)"

text \<open>The ASCII digits, and the decimal numeral of a natural number.\<close>

definition is_digit :: "nat \<Rightarrow> bool" where
  "is_digit c = (0x30 \<le> c \<and> c \<le> 0x39)"

definition nat_of_digits :: "str \<Rightarrow> nat" where
  "nat_of_digits s = foldl (\<lambda>a c. 10 * a + (c - 0x30)) 0 s"

fun digits_of_nat :: "nat \<Rightarrow> str" where
  "digits_of_nat n =
     (if n < 10 then [0x30 + n] else digits_of_nat (n div 10) @ [0x30 + n mod 10])"

declare digits_of_nat.simps [simp del]

text \<open>
  The decimal digits of Unicode 14.0 (the tables of CPython 3.11): 66 runs of ten
  consecutive code points, each run the digits zero to nine of one script, given by
  their zeros. \<open>to_decimal c\<close> is the digit value of \<open>c\<close>, if it is a decimal digit.
\<close>

definition decimal_zeros :: "nat list" where
  "decimal_zeros =
     [0x30, 0x660, 0x6F0, 0x7C0, 0x966, 0x9E6, 0xA66, 0xAE6, 0xB66, 0xBE6, 0xC66, 0xCE6,
      0xD66, 0xDE6, 0xE50, 0xED0, 0xF20, 0x1040, 0x1090, 0x17E0, 0x1810, 0x1946, 0x19D0,
      0x1A80, 0x1A90, 0x1B50, 0x1BB0, 0x1C40, 0x1C50, 0xA620, 0xA8D0, 0xA900, 0xA9D0,
      0xA9F0, 0xAA50, 0xABF0, 0xFF10, 0x104A0, 0x10D30, 0x11066, 0x110F0, 0x11136,
      0x111D0, 0x112F0, 0x11450, 0x114D0, 0x11650, 0x116C0, 0x11730, 0x118E0, 0x11950,
      0x11C50, 0x11D50, 0x11DA0, 0x16A60, 0x16AC0, 0x16B50, 0x1D7CE, 0x1D7D8, 0x1D7E2,
      0x1D7EC, 0x1D7F6, 0x1E140, 0x1E2F0, 0x1E950, 0x1FBF0]"

definition to_decimal :: "nat \<Rightarrow> nat option" where
  "to_decimal c =
     (case find (\<lambda>z. z \<le> c \<and> c < z + 10) decimal_zeros of
        None \<Rightarrow> None | Some z \<Rightarrow> Some (c - z))"

subsection \<open>Floats\<close>

text \<open>
  A Python \<^verbatim>\<open>float\<close> is an IEEE 754 double: a sign and a magnitude that is an exactly
  representable rational (\<open>Finite\<close>; \<open>Finite True 0\<close> is \<^verbatim>\<open>-0.0\<close>), an infinity with its
  sign, or a NaN.
\<close>

datatype pyfloat = Finite bool rat | Infinity bool | NaN

definition pow2 :: "int \<Rightarrow> rat" where
  "pow2 e = (if 0 \<le> e then 2 ^ nat e else 1 / 2 ^ nat (- e))"

definition pow10 :: "int \<Rightarrow> rat" where
  "pow10 e = (if 0 \<le> e then 10 ^ nat e else 1 / 10 ^ nat (- e))"

text \<open>\<open>\<lfloor>log\<^sub>2 q\<rfloor>\<close> and \<open>\<lfloor>log\<^sub>1\<^sub>0 q\<rfloor>\<close> of a positive rational, from the lengths of
  numerator and denominator.\<close>

definition floor_log2 :: "rat \<Rightarrow> int" where
  "floor_log2 q =
     (let (a, b) = quotient_of q; d = bitlen a - bitlen b
      in if pow2 d \<le> q then d else d - 1)"

definition floor_log10 :: "rat \<Rightarrow> int" where
  "floor_log10 q =
     (let (a, b) = quotient_of q; d = int (floorlog 10 (nat a)) - int (floorlog 10 (nat b))
      in if pow10 d \<le> q then d else d - 1)"

definition round_half_even :: "rat \<Rightarrow> int" where
  "round_half_even q =
     (let f = \<lfloor>q\<rfloor>; r = q - of_int f
      in if r < 1 / 2 then f else if 1 / 2 < r then f + 1
         else if even f then f else f + 1)"

text \<open>The double nearest to a positive rational, ties to even: 53 significant bits,
  exponents from \<open>-1022\<close> (below it the subnormal spacing \<open>2\<^sup>-\<^sup>1\<^sup>0\<^sup>7\<^sup>4\<close>) to \<open>1023\<close>;
  \<open>None\<close> when the rounded value leaves the range (the result is an infinity).\<close>

definition round_double :: "rat \<Rightarrow> rat option" where
  "round_double q =
     (let e = max (min (floor_log2 q) 1023) (- 1022) - 52;
          r = of_int (round_half_even (q / pow2 e)) * pow2 e
      in if pow2 1024 \<le> r then None else Some r)"

definition make_float :: "bool \<Rightarrow> rat \<Rightarrow> pyfloat" where
  "make_float neg q =
     (if q = 0 then Finite neg 0
      else case round_double q of None \<Rightarrow> Infinity neg | Some r \<Rightarrow> Finite neg r)"

text \<open>
  \<^verbatim>\<open>float(s)\<close> on a string, as CPython computes it. First every code point from 127 on is
  mapped to ASCII: a space for white space, the ASCII digit for a decimal digit; at any
  other one the text is cut and ends in \<^verbatim>\<open>?\<close> (a string that is all ASCII is taken as it
  is).
\<close>

fun transform_decimal_and_space :: "str \<Rightarrow> str" where
  "transform_decimal_and_space [] = []"
| "transform_decimal_and_space (c # cs) =
     (if c < 127 then c # transform_decimal_and_space cs
      else if py_isspace c then 0x20 # transform_decimal_and_space cs
      else case to_decimal c of
             Some d \<Rightarrow> (0x30 + d) # transform_decimal_and_space cs
           | None \<Rightarrow> [0x3F])"

definition to_ascii :: "str \<Rightarrow> str" where
  "to_ascii s = (if list_all (\<lambda>c. c < 128) s then s else transform_decimal_and_space s)"

text \<open>Then underscores are taken out; each must stand between two digits, or the
  conversion fails.\<close>

fun underscores_ok :: "nat \<Rightarrow> str \<Rightarrow> bool" where
  "underscores_ok prev [] = (prev \<noteq> 0x5F)"
| "underscores_ok prev (c # cs) =
     ((if c = 0x5F then is_digit prev else if prev = 0x5F then is_digit c else True)
      \<and> underscores_ok c cs)"

definition remove_underscores :: "str \<Rightarrow> str option" where
  "remove_underscores s =
     (if 0x5F \<notin> set s then Some s
      else if underscores_ok 0 s then Some (filter (\<lambda>c. c \<noteq> 0x5F) s) else None)"

text \<open>Then the white space of the C locale (\<^verbatim>\<open>\t \n \v \f \r\<close> and the space, not
  \<^verbatim>\<open>0x1c .. 0x1f\<close>) is dropped at both ends, and what is left must be, after an optional
  sign, \<^verbatim>\<open>inf\<close>, \<^verbatim>\<open>infinity\<close> or \<^verbatim>\<open>nan\<close> in any case, or a decimal number: digits with at
  most one point and at least one digit, then optionally \<^verbatim>\<open>e\<close> or \<^verbatim>\<open>E\<close>, an optional sign
  and at least one digit. Anything else raises \<^verbatim>\<open>ValueError\<close>.\<close>

definition c_isspace :: "nat \<Rightarrow> bool" where
  "c_isspace c = ((0x09 \<le> c \<and> c \<le> 0x0D) \<or> c = 0x20)"

definition c_strip :: "str \<Rightarrow> str" where
  "c_strip s = rev (dropWhile c_isspace (rev (dropWhile c_isspace s)))"

definition ascii_lower :: "nat \<Rightarrow> nat" where
  "ascii_lower c = (if 0x41 \<le> c \<and> c \<le> 0x5A then c + 0x20 else c)"

definition split_sign :: "str \<Rightarrow> bool \<times> str" where
  "split_sign s =
     (case s of [] \<Rightarrow> (False, [])
      | c # r \<Rightarrow> if c = 0x2D then (True, r)
                 else if c = 0x2B then (False, r) else (False, s))"

definition is_exp_char :: "nat \<Rightarrow> bool" where
  "is_exp_char c = (c = 0x65 \<or> c = 0x45)"

definition all_digits :: "str \<Rightarrow> bool" where
  "all_digits s = (s \<noteq> [] \<and> list_all is_digit s)"

text \<open>The mantissa: the digits before and after the point.\<close>

definition parse_mantissa :: "str \<Rightarrow> (str \<times> str) option" where
  "parse_mantissa s =
     (let ip = takeWhile (\<lambda>c. c \<noteq> 0x2E) s; r = dropWhile (\<lambda>c. c \<noteq> 0x2E) s
      in if r = [] then (if all_digits ip then Some (ip, []) else None)
         else let fp = tl r
              in if (ip = [] \<or> all_digits ip) \<and> (fp = [] \<or> all_digits fp)
                    \<and> \<not> (ip = [] \<and> fp = [])
                 then Some (ip, fp) else None)"

definition parse_exponent :: "str \<Rightarrow> int option" where
  "parse_exponent s =
     (let (neg, ds) = split_sign s
      in if all_digits ds
         then Some (if neg then - int (nat_of_digits ds) else int (nat_of_digits ds))
         else None)"

text \<open>A decimal number as \<open>(m, e)\<close>, its value \<open>m * 10\<^sup>e\<close>.\<close>

definition parse_number :: "str \<Rightarrow> (nat \<times> int) option" where
  "parse_number s =
     (let ms = takeWhile (\<lambda>c. \<not> is_exp_char c) s; r = dropWhile (\<lambda>c. \<not> is_exp_char c) s
      in case parse_mantissa ms of None \<Rightarrow> None
         | Some (ip, fp) \<Rightarrow>
             (case (if r = [] then Some 0 else parse_exponent (tl r)) of None \<Rightarrow> None
              | Some ex \<Rightarrow> Some (nat_of_digits (ip @ fp), ex - int (length fp))))"

definition py_float :: "str \<Rightarrow> py_error + pyfloat" where
  "py_float s =
     (case remove_underscores (to_ascii s) of None \<Rightarrow> Inl ValueError
      | Some t \<Rightarrow>
          (let (neg, body) = split_sign (c_strip t); low = map ascii_lower body
           in if low = ascii ''inf'' \<or> low = ascii ''infinity'' then Inr (Infinity neg)
              else if low = ascii ''nan'' then Inr NaN
              else case parse_number body of None \<Rightarrow> Inl ValueError
                   | Some (m, e) \<Rightarrow> Inr (make_float neg (of_nat m * pow10 e))))"

text \<open>
  \<^verbatim>\<open>str(x)\<close> of a float is \<^verbatim>\<open>repr(x)\<close>: the shortest decimal digit string that
  \<^verbatim>\<open>float\<close> reads back as \<open>x\<close> (the one nearest to \<open>x\<close> among the shortest; at most 17
  digits are tried), printed with a point, or with an exponent of at least two digits
  when the decimal point position is \<open>\<le> -4\<close> or \<open>> 16\<close>.
\<close>

definition repr_candidate :: "rat \<Rightarrow> nat \<Rightarrow> (int \<times> int) option" where
  "repr_candidate q n =
     (let k = floor_log10 q - int n + 1; sc = q / pow10 k; lo = \<lfloor>sc\<rfloor>; hi = lo + 1;
          ok_lo = (round_double (of_int lo * pow10 k) = Some q);
          ok_hi = (round_double (of_int hi * pow10 k) = Some q)
      in if ok_lo \<and> ok_hi then Some (if sc - of_int lo \<le> of_int hi - sc then lo else hi, k)
         else if ok_lo then Some (lo, k)
         else if ok_hi then Some (hi, k) else None)"

definition repr_fallback :: "rat \<Rightarrow> int \<times> int" where
  "repr_fallback q = (let k = floor_log10 q - 16 in (round_half_even (q / pow10 k), k))"

primrec shortest_digits :: "nat \<Rightarrow> rat \<Rightarrow> nat \<Rightarrow> int \<times> int" where
  "shortest_digits 0 q n = repr_fallback q"
| "shortest_digits (Suc fuel) q n =
     (case repr_candidate q n of Some r \<Rightarrow> r | None \<Rightarrow> shortest_digits fuel q (Suc n))"

definition pad2 :: "str \<Rightarrow> str" where
  "pad2 s = (if length s < 2 then 0x30 # s else s)"

definition format_repr :: "str \<Rightarrow> int \<Rightarrow> str" where
  "format_repr ds decpt =
     (if decpt \<le> - 4 \<or> 16 < decpt
      then hd ds # (if tl ds = [] then [] else 0x2E # tl ds)
           @ 0x65 # (if decpt - 1 < 0 then 0x2D else 0x2B)
           # pad2 (digits_of_nat (nat \<bar>decpt - 1\<bar>))
      else if decpt \<le> 0 then ascii ''0.'' @ replicate (nat (- decpt)) 0x30 @ ds
      else if int (length ds) \<le> decpt
           then ds @ replicate (nat decpt - length ds) 0x30 @ ascii ''.0''
      else take (nat decpt) ds @ 0x2E # drop (nat decpt) ds)"

definition repr_pos :: "rat \<Rightarrow> str" where
  "repr_pos q =
     (let (m, k) = shortest_digits 17 q 1; all_ds = digits_of_nat (nat m);
          ds = rev (dropWhile (\<lambda>c. c = 0x30) (rev all_ds))
      in format_repr (if ds = [] then ascii ''0'' else ds) (int (length all_ds) + k))"

definition py_str :: "pyfloat \<Rightarrow> str" where
  "py_str x =
     (case x of NaN \<Rightarrow> ascii ''nan''
      | Infinity neg \<Rightarrow> (if neg then ascii ''-inf'' else ascii ''inf'')
      | Finite neg q \<Rightarrow>
          (if neg then ascii ''-'' else []) @ (if q \<le> 0 then ascii ''0.0'' else repr_pos q))"

text \<open>\<^verbatim>\<open>int(x)\<close> of a float truncates towards zero; it raises \<^verbatim>\<open>ValueError\<close> on a NaN
  and \<^verbatim>\<open>OverflowError\<close> on an infinity.\<close>

definition py_int :: "pyfloat \<Rightarrow> py_error + int" where
  "py_int x =
     (case x of NaN \<Rightarrow> Inl ValueError
      | Infinity neg \<Rightarrow> Inl OverflowError
      | Finite neg q \<Rightarrow> Inr (if neg then - \<lfloor>q\<rfloor> else \<lfloor>q\<rfloor>))"

text \<open>The comparisons of a float with an integer literal; every comparison with a NaN is
  false.\<close>

definition float_le :: "pyfloat \<Rightarrow> int \<Rightarrow> bool" where
  "float_le x n =
     (case x of NaN \<Rightarrow> False
      | Infinity neg \<Rightarrow> neg
      | Finite neg q \<Rightarrow> (if neg then - q else q) \<le> of_int n)"

definition float_gt :: "pyfloat \<Rightarrow> int \<Rightarrow> bool" where
  "float_gt x n =
     (case x of NaN \<Rightarrow> False
      | Infinity neg \<Rightarrow> \<not> neg
      | Finite neg q \<Rightarrow> of_int n < (if neg then - q else q))"

text \<open>\<^verbatim>\<open>int(s)\<close> on a string, base ten: the same mapping to ASCII, the white space of the
  C locale dropped at both ends, an optional sign, and digits with single underscores
  between them.\<close>

definition py_int_str :: "str \<Rightarrow> py_error + int" where
  "py_int_str s =
     (let (neg, ds) = split_sign (c_strip (to_ascii s))
      in if ds \<noteq> [] \<and> is_digit (hd ds) \<and> underscores_ok 0 ds
            \<and> list_all (\<lambda>c. is_digit c \<or> c = 0x5F) ds
         then Inr (if neg then - int (nat_of_digits (filter is_digit ds))
                   else int (nat_of_digits (filter is_digit ds)))
         else Inl ValueError)"

text \<open>\<^verbatim>\<open>s.split(sep)\<close> for a separator of one character.\<close>

fun split_on :: "nat \<Rightarrow> str \<Rightarrow> str list" where
  "split_on sep [] = [[]]"
| "split_on sep (c # cs) =
     (if c = sep then [] # split_on sep cs
      else (case split_on sep cs of [] \<Rightarrow> [[c]] | w # ws \<Rightarrow> (c # w) # ws))"

text \<open>A \<^verbatim>\<open>dict\<close> whose keys are the field names of the program and whose values are
  strings; \<^verbatim>\<open>d[k]\<close> raises \<^verbatim>\<open>KeyError\<close> on a missing key.\<close>

type_synonym stock = "string \<rightharpoonup> str"

definition getitem :: "stock \<Rightarrow> string \<Rightarrow> py_error + str" where
  "getitem d k = (case d k of None \<Rightarrow> Inl KeyError | Some v \<Rightarrow> Inr v)"

section \<open>Record normalisation: \<^verbatim>\<open>clean_numeric_value\<close> and \<^verbatim>\<open>validate_stock_data\<close>\<close>

definition rupee_sign :: str where
  "rupee_sign = [0x20A8]"

definition sentinels :: "str list" where
  "sentinels =
     [ascii ''N/A'', ascii ''-'', [], ascii '' '', ascii ''NAN'', ascii ''NULL'',
      ascii ''N/S'', ascii ''N.S'', ascii ''n/s'']"

text \<open>The text handed to \<^verbatim>\<open>float\<close>: lines 292 to 300 of \<^verbatim>\<open>scrap.py\<close>.\<close>

definition cleaned_text :: "str \<Rightarrow> str" where
  "cleaned_text v =
     (let c1 = strip v;
          c2 = replace (replace (replace c1 (ascii '','') []) (ascii '' '') []) (ascii ''%'') [];
          c3 = replace (replace (replace c2 (ascii ''('') []) (ascii '')'') []) (ascii ''$'') [];
          c4 = replace (replace (replace c3 (ascii ''Rs.'') []) (ascii ''PKR'') []) rupee_sign [];
          c5 = replace (replace c4 (ascii ''--'') (ascii ''0'')) (ascii ''---'') (ascii ''0'')
      in if startswith c5 (ascii ''-'') then 0x2D # lstrip (drop 1 c5) else c5)"

text \<open>The body of the \<^verbatim>\<open>try\<close>: only \<^verbatim>\<open>float\<close> can raise in it.\<close>

definition clean_numeric_try :: "str \<Rightarrow> py_error + str" where
  "clean_numeric_try v =
     (let cleaned = cleaned_text v
      in if cleaned = [] \<or> cleaned = ascii ''-'' then Inr (ascii ''0'')
         else py_bind (py_float cleaned) (\<lambda>float_val. Inr (py_str float_val)))"

definition clean_numeric_value :: "str \<Rightarrow> str" where
  "clean_numeric_value v =
     (if v = [] \<or> v \<in> set sentinels then ascii ''0''
      else case clean_numeric_try v of Inl e \<Rightarrow> ascii ''0'' | Inr r \<Rightarrow> r)"

definition validate_stock_try :: "stock \<Rightarrow> py_error + bool" where
  "validate_stock_try stock =
     py_bind (getitem stock ''symbol'') (\<lambda>symbol.
       if symbol = [] \<or> 20 < length symbol then Inr False
       else py_bind (getitem stock ''current'') (\<lambda>current.
         py_bind (py_float (clean_numeric_value current)) (\<lambda>current_price.
           if float_le current_price 0 \<or> float_gt current_price 100000 then Inr False
           else Inr True)))"

definition validate_stock_data :: "stock \<Rightarrow> bool" where
  "validate_stock_data stock =
     (case validate_stock_try stock of Inl e \<Rightarrow> False | Inr b \<Rightarrow> b)"

section \<open>Time: \<^verbatim>\<open>datetime\<close> in the zone Asia/Karachi\<close>

text \<open>
  A \<^verbatim>\<open>datetime\<close> of the one fixed zone is its wall-clock fields; the date is kept as its
  proleptic Gregorian ordinal (\<^verbatim>\<open>date.toordinal()\<close>, day 1 a Monday), which is all the
  scheduler uses of it. The dates of Python run from ordinal 1 (0001-01-01) to ordinal
  3652059 (9999-12-31). \<^verbatim>\<open>weekday()\<close> is 0 for Monday and 6 for Sunday.
\<close>

record datetime =
  ordinal :: int
  hour :: nat
  minute :: nat
  second :: nat
  microsecond :: nat

definition MINORDINAL :: int where
  "MINORDINAL = 1"

definition MAXORDINAL :: int where
  "MAXORDINAL = 3652059"

definition valid_datetime :: "datetime \<Rightarrow> bool" where
  "valid_datetime d =
     (MINORDINAL \<le> ordinal d \<and> ordinal d \<le> MAXORDINAL
      \<and> hour d < 24 \<and> minute d < 60 \<and> second d < 60 \<and> microsecond d < 1000000)"

definition weekday :: "datetime \<Rightarrow> int" where
  "weekday d = (ordinal d + 6) mod 7"

text \<open>\<^verbatim>\<open>d + timedelta(days=n)\<close> and \<^verbatim>\<open>d + timedelta(minutes=m)\<close>: the fields are carried
  over, and a date outside the range raises \<^verbatim>\<open>OverflowError\<close>.\<close>

definition in_range :: "datetime \<Rightarrow> py_error + datetime" where
  "in_range d =
     (if MINORDINAL \<le> ordinal d \<and> ordinal d \<le> MAXORDINAL then Inr d
      else Inl OverflowError)"

definition add_days :: "datetime \<Rightarrow> int \<Rightarrow> py_error + datetime" where
  "add_days d n = in_range (d\<lparr>ordinal := ordinal d + n\<rparr>)"

definition add_minutes :: "datetime \<Rightarrow> int \<Rightarrow> py_error + datetime" where
  "add_minutes d m =
     (let t = int (hour d) * 60 + int (minute d) + m
      in in_range (d\<lparr>ordinal := ordinal d + t div 1440,
                      hour := nat (t mod 1440 div 60), minute := nat (t mod 60)\<rparr>))"

text \<open>\<^verbatim>\<open>d.replace(second=0, microsecond=0)\<close>, and \<^verbatim>\<open>d.replace(hour=h, minute=m, second=0,
  microsecond=0)\<close>, which raises \<^verbatim>\<open>ValueError\<close> on a field out of range.\<close>

definition replace_seconds :: "datetime \<Rightarrow> datetime" where
  "replace_seconds d = d\<lparr>second := 0, microsecond := 0\<rparr>"

definition replace_time :: "datetime \<Rightarrow> int \<Rightarrow> int \<Rightarrow> py_error + datetime" where
  "replace_time d h m =
     (if 0 \<le> h \<and> h < 24 \<and> 0 \<le> m \<and> m < 60
      then Inr (d\<lparr>hour := nat h, minute := nat m, second := 0, microsecond := 0\<rparr>)
      else Inl ValueError)"

text \<open>The order of two datetimes of the same zone: the order of their fields. The
  number of whole minutes from the start of day 0 to a datetime measures distances.\<close>

definition dt_less :: "datetime \<Rightarrow> datetime \<Rightarrow> bool" where
  "dt_less a b =
     (ordinal a < ordinal b \<or> (ordinal a = ordinal b \<and>
       (hour a < hour b \<or> (hour a = hour b \<and>
         (minute a < minute b \<or> (minute a = minute b \<and>
           (second a < second b \<or> (second a = second b \<and>
             microsecond a < microsecond b))))))))"

definition dt_le :: "datetime \<Rightarrow> datetime \<Rightarrow> bool" where
  "dt_le a b = (dt_less a b \<or> a = b)"

definition minute_count :: "datetime \<Rightarrow> int" where
  "minute_count d = ordinal d * 1440 + int (hour d) * 60 + int (minute d)"

section \<open>The window scheduler\<close>

definition PSX_MARKET_OPEN :: str where
  "PSX_MARKET_OPEN = ascii ''09:30''"

definition PSX_MARKET_CLOSE :: str where
  "PSX_MARKET_CLOSE = ascii ''15:30''"

definition SCRAPE_INTERVAL_MINUTES :: int where
  "SCRAPE_INTERVAL_MINUTES = 5"

text \<open>\<^verbatim>\<open>h, m = map(int, s.split(':'))\<close>: the unpacking raises \<^verbatim>\<open>ValueError\<close> unless there
  are exactly two parts.\<close>

definition parse_hour_minute :: "str \<Rightarrow> py_error + int \<times> int" where
  "parse_hour_minute s =
     (case split_on 0x3A s of
        [a, b] \<Rightarrow> py_bind (py_int_str a) (\<lambda>h. py_bind (py_int_str b) (\<lambda>m. Inr (h, m)))
      | _ \<Rightarrow> Inl ValueError)"

definition is_market_open_try :: "datetime \<Rightarrow> py_error + bool" where
  "is_market_open_try now_pk =
     (if 5 \<le> weekday now_pk then Inr False
      else py_bind (parse_hour_minute PSX_MARKET_OPEN) (\<lambda>(open_hour, open_minute).
           py_bind (parse_hour_minute PSX_MARKET_CLOSE) (\<lambda>(close_hour, close_minute).
           py_bind (replace_time now_pk open_hour open_minute) (\<lambda>market_open.
           py_bind (replace_time now_pk close_hour close_minute) (\<lambda>market_close.
             Inr (dt_le market_open now_pk \<and> dt_le now_pk market_close))))))"

definition is_market_open :: "datetime \<Rightarrow> bool" where
  "is_market_open now_pk =
     (case is_market_open_try now_pk of Inl e \<Rightarrow> False | Inr b \<Rightarrow> b)"

text \<open>\<^verbatim>\<open>get_next_scrape_time\<close>, as a function of the clock reading \<open>now_pk\<close>. The addition
  of line 444 can raise, and nothing catches it.\<close>

definition get_next_scrape_time :: "datetime \<Rightarrow> py_error + datetime" where
  "get_next_scrape_time now_pk =
     (let minutes_to_add =
            (SCRAPE_INTERVAL_MINUTES - int (minute now_pk) mod SCRAPE_INTERVAL_MINUTES)
              mod SCRAPE_INTERVAL_MINUTES;
          minutes_to_add = (if minutes_to_add = 0 then SCRAPE_INTERVAL_MINUTES
                            else minutes_to_add)
      in py_bind (add_minutes now_pk minutes_to_add) (\<lambda>next_time.
           Inr (replace_seconds next_time)))"

text \<open>The branch of \<^verbatim>\<open>run_and_schedule\<close> taken when the market is closed (lines 534 to
  543): the instant the scheduler sleeps until. The loop over the weekend days:\<close>

function skip_weekend :: "datetime \<Rightarrow> py_error + datetime" where
  "skip_weekend tomorrow =
     (if 5 \<le> weekday tomorrow
      then (case add_days tomorrow 1 of Inl e \<Rightarrow> Inl e | Inr d \<Rightarrow> skip_weekend d)
      else Inr tomorrow)"
  by pat_completeness auto
termination
proof (relation "measure (\<lambda>d. if weekday d = 5 then 2 else if weekday d = 6 then 1 else 0)")
  show "wf (measure (\<lambda>d. if weekday d = 5 then 2 else if weekday d = 6 then 1 else 0))"
    by simp
next
  fix tomorrow d :: datetime
  assume weekend: "5 \<le> weekday tomorrow" and next_day: "add_days tomorrow 1 = Inr d"
  have below: "weekday tomorrow < 7"
    by (simp add: weekday_def)
  from next_day have d: "d = tomorrow\<lparr>ordinal := ordinal tomorrow + 1\<rparr>"
    by (simp add: add_days_def in_range_def split: if_splits)
  have after: "weekday d = (weekday tomorrow + 1) mod 7"
    by (simp add: d weekday_def mod_simps add.commute add.left_commute)
  from weekend below consider "weekday tomorrow = 5" | "weekday tomorrow = 6"
    by linarith
  then show "(d, tomorrow)
      \<in> measure (\<lambda>d. if weekday d = 5 then 2 else if weekday d = 6 then 1 else 0)"
  proof cases
    case 1
    with after show ?thesis by simp
  next
    case 2
    with after show ?thesis by simp
  qed
qed

declare skip_weekend.simps [simp del]

definition next_market_open :: "datetime \<Rightarrow> py_error + datetime" where
  "next_market_open now_pk =
     py_bind (add_days now_pk 1) (\<lambda>tomorrow.
     py_bind (skip_weekend tomorrow) (\<lambda>tomorrow.
     py_bind (parse_hour_minute PSX_MARKET_OPEN) (\<lambda>(open_hour, open_minute).
       replace_time tomorrow open_hour open_minute)))"

section \<open>The extraction chain\<close>

subsection \<open>The primary strategy: the in-page script\<close>

text \<open>
  What the script of \<^verbatim>\<open>extract_correct_psx_data\<close> sees of the page: its tables in
  document order, each with the \<^verbatim>\<open>innerText\<close> of its \<^verbatim>\<open>th\<close> cells and, when it has a
  \<^verbatim>\<open>tbody\<close>, the rows of that body, a row being the \<^verbatim>\<open>innerText\<close> of its \<^verbatim>\<open>td\<close>
  cells. \<^verbatim>\<open>String.prototype.trim\<close> drops white space and line terminators: \<^verbatim>\<open>\t \n \v \f
  \r\<close>, the space, \<^verbatim>\<open>U+00A0\<close>, \<^verbatim>\<open>U+1680\<close>, \<^verbatim>\<open>U+2000 .. U+200A\<close>, \<^verbatim>\<open>U+2028\<close>, \<^verbatim>\<open>U+2029\<close>,
  \<^verbatim>\<open>U+202F\<close>, \<^verbatim>\<open>U+205F\<close>, \<^verbatim>\<open>U+3000\<close> and \<^verbatim>\<open>U+FEFF\<close>. The \<^verbatim>\<open>length\<close> of a JavaScript
  string counts UTF-16 code units, two for a code point from \<^verbatim>\<open>U+10000\<close> on.
\<close>

record table =
  headers :: "str list"
  tbody :: "str list list option"

definition js_isspace :: "nat \<Rightarrow> bool" where
  "js_isspace c =
     ((0x09 \<le> c \<and> c \<le> 0x0D) \<or> c = 0x20 \<or> c = 0xA0 \<or> c = 0x1680
      \<or> (0x2000 \<le> c \<and> c \<le> 0x200A) \<or> c = 0x2028 \<or> c = 0x2029 \<or> c = 0x202F
      \<or> c = 0x205F \<or> c = 0x3000 \<or> c = 0xFEFF)"

definition js_trim :: "str \<Rightarrow> str" where
  "js_trim s = rev (dropWhile js_isspace (rev (dropWhile js_isspace s)))"

definition js_length :: "str \<Rightarrow> nat" where
  "js_length s = sum_list (map (\<lambda>c. if 0x10000 \<le> c then 2 else 1) s)"

fun join_space :: "str list \<Rightarrow> str" where
  "join_space [] = []"
| "join_space [x] = x"
| "join_space (x # y # r) = x @ 0x20 # join_space (y # r)"

definition header_matches :: "table \<Rightarrow> bool" where
  "header_matches t =
     (10 \<le> length (headers t) \<and>
      (let headerText = join_space (map js_trim (headers t))
       in str_contains headerText (ascii ''Symbol'')
          \<or> str_contains headerText (ascii ''Sector'')
          \<or> str_contains headerText (ascii ''LDCP'')))"

definition target_table :: "table list \<Rightarrow> table option" where
  "target_table tables =
     (case find header_matches tables of Some t \<Rightarrow> Some t
      | None \<Rightarrow> (case tables of [] \<Rightarrow> None | t # rest \<Rightarrow> Some t))"

text \<open>\<^verbatim>\<open>cells[i]?.innerText.trim() || dflt\<close>: the default stands in for a missing cell and
  also for a cell whose trimmed text is empty.\<close>

definition script_cell :: "str list \<Rightarrow> nat \<Rightarrow> str \<Rightarrow> str" where
  "script_cell cells i dflt =
     (if i < length cells
      then (let t = js_trim (cells ! i) in if t = [] then dflt else t)
      else dflt)"

text \<open>The condition of lines 186 to 190 under which the script skips a row.\<close>

definition script_symbol_skipped :: "str \<Rightarrow> bool" where
  "script_symbol_skipped symbol =
     (symbol = [] \<or> 20 < js_length symbol
      \<or> str_contains symbol (ascii ''Symbol'') \<or> str_contains symbol (ascii ''Last'')
      \<or> symbol = ascii ''PSX'' \<or> symbol = ascii ''KSE-100''
      \<or> str_contains symbol (ascii ''Open'') \<or> str_contains symbol (ascii ''High'')
      \<or> str_contains symbol (ascii ''Low'') \<or> str_contains symbol (ascii ''Volume''))"

definition script_row :: "str list \<Rightarrow> stock option" where
  "script_row cells =
     (if 9 \<le> length cells
      then (let symbol = script_cell cells 0 []
            in if script_symbol_skipped symbol then None
               else Some [''symbol'' \<mapsto> symbol,
                          ''sector'' \<mapsto> script_cell cells 1 [],
                          ''listed_in'' \<mapsto> script_cell cells 2 [],
                          ''ldcp'' \<mapsto> script_cell cells 3 (ascii ''0''),
                          ''open'' \<mapsto> script_cell cells 4 (ascii ''0''),
                          ''high'' \<mapsto> script_cell cells 5 (ascii ''0''),
                          ''low'' \<mapsto> script_cell cells 6 (ascii ''0''),
                          ''current'' \<mapsto> script_cell cells 7 (ascii ''0''),
                          ''change'' \<mapsto> script_cell cells 8 (ascii ''0''),
                          ''change_percent'' \<mapsto> script_cell cells 9 (ascii ''0''),
                          ''volume'' \<mapsto> script_cell cells 10 (ascii ''0'')])
      else None)"

definition extract_script :: "table list \<Rightarrow> stock list" where
  "extract_script tables =
     (case target_table tables of None \<Rightarrow> []
      | Some targetTable \<Rightarrow>
          (case tbody targetTable of None \<Rightarrow> []
           | Some rows \<Rightarrow> List.map_filter script_row rows))"

subsection \<open>The secondary strategy: walking the rows through the driver\<close>

text \<open>
  Through Selenium every access can raise: \<^verbatim>\<open>row.find_elements\<close> gives the cells of a
  row or raises, and so does the \<^verbatim>\<open>.text\<close> of a cell.
\<close>

type_synonym element_text = "py_error + str"

type_synonym row_element = "py_error + element_text list"

definition cell_text :: "element_text \<Rightarrow> py_error + str" where
  "cell_text c = py_bind c (\<lambda>t. Inr (strip t))"

text \<open>\<^verbatim>\<open>cells[i].text.strip() if len(cells) > i else dflt\<close>\<close>

definition manual_cell :: "element_text list \<Rightarrow> nat \<Rightarrow> str \<Rightarrow> py_error + str" where
  "manual_cell cells i dflt = (if i < length cells then cell_text (cells ! i) else Inr dflt)"

text \<open>The condition of lines 251 to 253 under which the row walk skips a row.\<close>

definition manual_symbol_skipped :: "str \<Rightarrow> bool" where
  "manual_symbol_skipped symbol =
     (symbol = [] \<or> 20 < length symbol
      \<or> list_ex (\<lambda>keyword. str_contains symbol keyword)
           [ascii ''Symbol'', ascii ''Last'', ascii ''Open'', ascii ''High'', ascii ''Low'',
            ascii ''Current'', ascii ''Change'', ascii ''Volume'']
      \<or> str_contains symbol (ascii ''PSX'') \<or> str_contains symbol (ascii ''KSE''))"

text \<open>The body of the \<^verbatim>\<open>try\<close> inside the loop: \<open>Inr None\<close> for a row left out by
  \<^verbatim>\<open>continue\<close>, \<open>Inr (Some stock)\<close> for a row that is appended.\<close>

definition manual_row_try :: "row_element \<Rightarrow> py_error + stock option" where
  "manual_row_try row =
     py_bind row (\<lambda>cells.
       if length cells < 9 then Inr None
       else py_bind (cell_text (cells ! 0)) (\<lambda>symbol.
         if manual_symbol_skipped symbol then Inr None
         else py_bind (manual_cell cells 1 []) (\<lambda>sector.
              py_bind (manual_cell cells 2 []) (\<lambda>listed_in.
              py_bind (manual_cell cells 3 (ascii ''0'')) (\<lambda>ldcp.
              py_bind (manual_cell cells 4 (ascii ''0'')) (\<lambda>opn.
              py_bind (manual_cell cells 5 (ascii ''0'')) (\<lambda>high.
              py_bind (manual_cell cells 6 (ascii ''0'')) (\<lambda>low.
              py_bind (manual_cell cells 7 (ascii ''0'')) (\<lambda>current.
              py_bind (manual_cell cells 8 (ascii ''0'')) (\<lambda>change.
              py_bind (manual_cell cells 9 (ascii ''0'')) (\<lambda>change_percent.
              py_bind (manual_cell cells 10 (ascii ''0'')) (\<lambda>volume.
                Inr (Some [''symbol'' \<mapsto> symbol, ''sector'' \<mapsto> sector,
                           ''listed_in'' \<mapsto> listed_in, ''ldcp'' \<mapsto> ldcp,
                           ''open'' \<mapsto> opn, ''high'' \<mapsto> high, ''low'' \<mapsto> low,
                           ''current'' \<mapsto> current, ''change'' \<mapsto> change,
                           ''change_percent'' \<mapsto> change_percent,
                           ''volume'' \<mapsto> volume])))))))))))))"

text \<open>The loop over the rows: a row whose body raises is skipped (\<^verbatim>\<open>except Exception:
  continue\<close>).\<close>

fun manual_rows :: "row_element list \<Rightarrow> stock list" where
  "manual_rows [] = []"
| "manual_rows (row # rows) =
     (case manual_row_try row of
        Inr (Some stock) \<Rightarrow> stock # manual_rows rows
      | Inr None \<Rightarrow> manual_rows rows
      | Inl e \<Rightarrow> manual_rows rows)"

subsection \<open>The chain\<close>

text \<open>
  The state of the page and of the session, as far as the two strategies can observe it:
  whether \<^verbatim>\<open>driver.get\<close>, the 20 second wait for a table and \<^verbatim>\<open>execute_script\<close> raise
  (and with which exception), the tables the script finds, and for the row walk either
  the exception of its 25 second wait (or of \<^verbatim>\<open>find_elements\<close>) or the \<^verbatim>\<open>tr\<close> elements
  of the first table.
\<close>

record driver =
  get_raises :: "py_error option"
  wait_raises :: "py_error option"
  script_raises :: "py_error option"
  page_tables :: "table list"
  first_table_rows :: "py_error + row_element list"

definition raise_if :: "py_error option \<Rightarrow> py_error + unit" where
  "raise_if r = (case r of Some e \<Rightarrow> Inl e | None \<Rightarrow> Inr ())"

definition extract_manual_try :: "driver \<Rightarrow> py_error + stock list" where
  "extract_manual_try drv = py_bind (first_table_rows drv) (\<lambda>rows. Inr (manual_rows rows))"

definition extract_manual_complete :: "driver \<Rightarrow> py_error + stock list" where
  "extract_manual_complete drv =
     (case extract_manual_try drv of Inl e \<Rightarrow> Inr [] | Inr stocks_data \<Rightarrow> Inr stocks_data)"

definition extract_correct_try :: "driver \<Rightarrow> py_error + stock list" where
  "extract_correct_try drv =
     py_bind (raise_if (get_raises drv)) (\<lambda>_.
     py_bind (raise_if (wait_raises drv)) (\<lambda>_.
     py_bind (raise_if (script_raises drv)) (\<lambda>_.
       let raw_data = extract_script (page_tables drv)
       in if raw_data = [] then extract_manual_complete drv else Inr raw_data)))"

definition extract_correct_psx_data :: "driver \<Rightarrow> py_error + stock list" where
  "extract_correct_psx_data drv =
     (case extract_correct_try drv of
        Inl e \<Rightarrow> extract_manual_complete drv
      | Inr raw_data \<Rightarrow> Inr raw_data)"

section \<open>The persistence gateway: \<^verbatim>\<open>save_to_postgresql\<close>\<close>

text \<open>
  The tuple \<^verbatim>\<open>row_data\<close> handed to \<^verbatim>\<open>cur.execute\<close>: a number in it is the \<^verbatim>\<open>int\<close> literal
  \<open>0\<close> or a \<^verbatim>\<open>float\<close>; the volume is always an \<^verbatim>\<open>int\<close>.
\<close>

datatype pynum = PyInt int | PyFloat pyfloat

record row =
  col_scrape_timestamp :: datetime
  col_symbol :: str
  col_sector :: str
  col_listed_in :: str
  col_ldcp :: pynum
  col_open :: pynum
  col_high :: pynum
  col_low :: pynum
  col_current :: pynum
  col_change :: pynum
  col_change_percent :: pynum
  col_volume :: int

text \<open>\<^verbatim>\<open>float(clean_numeric_value(item[k])) if clean_numeric_value(item[k]) != '0' else 0\<close>\<close>

definition price_field :: "stock \<Rightarrow> string \<Rightarrow> py_error + pynum" where
  "price_field item k =
     py_bind (getitem item k) (\<lambda>raw.
       if clean_numeric_value raw \<noteq> ascii ''0''
       then py_bind (getitem item k) (\<lambda>raw.
              py_bind (py_float (clean_numeric_value raw)) (\<lambda>x. Inr (PyFloat x)))
       else Inr (PyInt 0))"

text \<open>\<^verbatim>\<open>int(float(clean_numeric_value(item['volume']))) if
  clean_numeric_value(item['volume']) != '0' else 0\<close>\<close>

definition volume_field :: "stock \<Rightarrow> py_error + int" where
  "volume_field item =
     py_bind (getitem item ''volume'') (\<lambda>raw.
       if clean_numeric_value raw \<noteq> ascii ''0''
       then py_bind (getitem item ''volume'') (\<lambda>raw.
              py_bind (py_float (clean_numeric_value raw)) py_int)
       else Inr 0)"

definition row_data :: "datetime \<Rightarrow> stock \<Rightarrow> py_error + row" where
  "row_data scrape_timestamp item =
     py_bind (getitem item ''symbol'') (\<lambda>symbol.
     py_bind (getitem item ''sector'') (\<lambda>sector.
     py_bind (getitem item ''listed_in'') (\<lambda>listed_in.
     py_bind (price_field item ''ldcp'') (\<lambda>ldcp.
     py_bind (price_field item ''open'') (\<lambda>opn.
     py_bind (price_field item ''high'') (\<lambda>high.
     py_bind (price_field item ''low'') (\<lambda>low.
     py_bind (price_field item ''current'') (\<lambda>current.
     py_bind (price_field item ''change'') (\<lambda>change.
     py_bind (price_field item ''change_percent'') (\<lambda>change_percent.
     py_bind (volume_field item) (\<lambda>volume.
       Inr \<lparr>col_scrape_timestamp = scrape_timestamp, col_symbol = symbol,
            col_sector = sector, col_listed_in = listed_in, col_ldcp = ldcp,
            col_open = opn, col_high = high, col_low = low, col_current = current,
            col_change = change, col_change_percent = change_percent,
            col_volume = volume\<rparr>)))))))))))"

text \<open>
  The table \<^verbatim>\<open>psx_data\<close> is the list of its rows, oldest first. The statement
  \<^verbatim>\<open>INSERT ... ON CONFLICT (scrape_timestamp, symbol) DO NOTHING\<close> appends the row unless a
  row with the same timestamp and symbol is there.
\<close>

definition conflicts :: "row list \<Rightarrow> row \<Rightarrow> bool" where
  "conflicts tbl r =
     list_ex (\<lambda>r'. col_scrape_timestamp r' = col_scrape_timestamp r
                   \<and> col_symbol r' = col_symbol r) tbl"

definition insert_on_conflict_do_nothing :: "row list \<Rightarrow> row \<Rightarrow> row list" where
  "insert_on_conflict_do_nothing tbl r = (if conflicts tbl r then tbl else tbl @ [r])"

text \<open>
  Where the store can fail during one call: \<^verbatim>\<open>psycopg2.connect\<close>, \<^verbatim>\<open>conn.cursor\<close>,
  \<^verbatim>\<open>cur.execute\<close> of the insert (the store refusing a given row), \<^verbatim>\<open>conn.commit\<close>, the
  summary query after the commit, \<^verbatim>\<open>conn.rollback\<close>, and the two \<^verbatim>\<open>close\<close> calls.
\<close>

record store_faults =
  connect_fails :: bool
  cursor_fails :: bool
  execute_fails :: "row \<Rightarrow> bool"
  commit_fails :: bool
  summary_fails :: bool
  rollback_fails :: bool
  close_fails :: bool

text \<open>
  A connection: the committed table, the table as the open transaction sees it, and
  whether the transaction is aborted. As in PostgreSQL, a statement that fails aborts the
  transaction: it changes nothing, every later statement of the transaction fails, and
  \<^verbatim>\<open>commit\<close> then ends the transaction as a rollback, without raising.
\<close>

record connection =
  committed :: "row list"
  working :: "row list"
  aborted :: bool

definition connect :: "row list \<Rightarrow> connection" where
  "connect db = \<lparr>committed = db, working = db, aborted = False\<rparr>"

definition execute_insert :: "store_faults \<Rightarrow> connection \<Rightarrow> row \<Rightarrow> py_error + connection" where
  "execute_insert env conn r =
     (if aborted conn \<or> execute_fails env r then Inl OperationalError
      else Inr (conn\<lparr>working := insert_on_conflict_do_nothing (working conn) r\<rparr>))"

definition after_failed_statement :: "connection \<Rightarrow> connection" where
  "after_failed_statement conn = conn\<lparr>aborted := True\<rparr>"

definition commit :: "connection \<Rightarrow> connection" where
  "commit conn =
     (if aborted conn then \<lparr>committed = committed conn, working = committed conn, aborted = False\<rparr>
      else \<lparr>committed = working conn, working = working conn, aborted = False\<rparr>)"

definition rollback :: "connection \<Rightarrow> connection" where
  "rollback conn = \<lparr>committed = committed conn, working = committed conn, aborted = False\<rparr>"

text \<open>The loop of lines 349 to 372 on the connection, with \<^verbatim>\<open>saved_count\<close>. An exception
  inside the inner \<^verbatim>\<open>try\<close>, from building the tuple or from \<^verbatim>\<open>cur.execute\<close>, skips the
  item.\<close>

fun insert_loop ::
  "store_faults \<Rightarrow> datetime \<Rightarrow> stock list \<Rightarrow> connection \<times> nat \<Rightarrow> connection \<times> nat" where
  "insert_loop env scrape_timestamp [] st = st"
| "insert_loop env scrape_timestamp (item # items) (conn, saved_count) =
     insert_loop env scrape_timestamp items
       (if validate_stock_data item
        then (case row_data scrape_timestamp item of
                Inl e \<Rightarrow> (conn, saved_count)
              | Inr r \<Rightarrow>
                  (case execute_insert env conn r of
                     Inl e \<Rightarrow> (after_failed_statement conn, saved_count)
                   | Inr conn' \<Rightarrow> (conn', saved_count + 1)))
        else (conn, saved_count))"

text \<open>
  The summary of lines 378 to 394 runs when \<^verbatim>\<open>saved_count\<close> is positive. Besides a
  failure of its query it raises when no committed row carries the timestamp: the sum of
  the volumes is then \<^verbatim>\<open>None\<close>, which the format \<^verbatim>\<open>{summary[3]:,}\<close> refuses.
\<close>

definition has_timestamp :: "row list \<Rightarrow> datetime \<Rightarrow> bool" where
  "has_timestamp tbl scrape_timestamp =
     list_ex (\<lambda>r. col_scrape_timestamp r = scrape_timestamp) tbl"

text \<open>
  The body of the outer \<^verbatim>\<open>try\<close>: the connection, if one was made, and either the
  exception that left the body or the value returned.
\<close>

definition save_try ::
  "store_faults \<Rightarrow> row list \<Rightarrow> stock list \<Rightarrow> datetime
     \<Rightarrow> connection option \<times> (py_error + bool)" where
  "save_try env db stocks_data scrape_timestamp =
     (if connect_fails env then (None, Inl OperationalError)
      else if cursor_fails env then (Some (connect db), Inl InterfaceError)
      else let (conn, saved_count) =
                 insert_loop env scrape_timestamp stocks_data (connect db, 0)
           in if commit_fails env then (Some conn, Inl OperationalError)
              else if 0 < saved_count
                      \<and> (summary_fails env
                           \<or> \<not> has_timestamp (committed (commit conn)) scrape_timestamp)
                   then (Some (commit conn), Inl OperationalError)
              else (Some (commit conn), Inr True))"

text \<open>The handler \<^verbatim>\<open>except Exception\<close> of lines 398 to 402: the rollback can raise in
  its turn, and then that exception leaves the function.\<close>

definition save_except ::
  "store_faults \<Rightarrow> connection option \<Rightarrow> connection option \<times> (py_error + bool)" where
  "save_except env conn =
     (case conn of None \<Rightarrow> (None, Inr False)
      | Some c \<Rightarrow> if rollback_fails env then (Some c, Inl InterfaceError)
                  else (Some (rollback c), Inr False))"

text \<open>The function: what it returns or raises, and the committed table after it. The
  \<^verbatim>\<open>finally\<close> block closes cursor and connection, which drops what was not committed; an
  exception of a \<^verbatim>\<open>close\<close> replaces the outcome.\<close>

definition save_to_postgresql ::
  "store_faults \<Rightarrow> row list \<Rightarrow> stock list \<Rightarrow> datetime \<Rightarrow> (py_error + bool) \<times> row list" where
  "save_to_postgresql env db stocks_data scrape_timestamp =
     (if stocks_data = [] then (Inr False, db)
      else let (conn, outcome) =
                 (case save_try env db stocks_data scrape_timestamp of
                    (conn, Inl e) \<Rightarrow> save_except env conn
                  | (conn, Inr b) \<Rightarrow> (conn, Inr b))
           in case conn of None \<Rightarrow> (outcome, db)
              | Some c \<Rightarrow> (if close_fails env then Inl InterfaceError else outcome,
                           committed c))"

section \<open>Sample data\<close>

text \<open>
  A run timestamp (2024-01-01 10:05:00), a record as the extraction gives it with the
  volume text left open, the row it is stored as with the volume left open, and a store
  in which nothing fails. The examples below are built from them.
\<close>

abbreviation sample_time :: datetime where
  "sample_time \<equiv> \<lparr>ordinal = 738886, hour = 10, minute = 5, second = 0, microsecond = 0\<rparr>"

abbreviation sample_stock :: "str \<Rightarrow> stock" where
  "sample_stock volume \<equiv>
     [''symbol'' \<mapsto> ascii ''HBL'', ''sector'' \<mapsto> ascii ''Banks'',
      ''listed_in'' \<mapsto> ascii ''KSE100'', ''ldcp'' \<mapsto> ascii ''150.25'',
      ''open'' \<mapsto> ascii ''150.25'', ''high'' \<mapsto> ascii ''150.25'',
      ''low'' \<mapsto> ascii ''150.25'', ''current'' \<mapsto> ascii ''150.25'',
      ''change'' \<mapsto> ascii ''0'', ''change_percent'' \<mapsto> ascii ''0'',
      ''volume'' \<mapsto> volume]"

abbreviation sample_row :: "int \<Rightarrow> row" where
  "sample_row volume \<equiv>
     \<lparr>col_scrape_timestamp = sample_time, col_symbol = ascii ''HBL'',
      col_sector = ascii ''Banks'', col_listed_in = ascii ''KSE100'',
      col_ldcp = PyFloat (Finite False (601 / 4)), col_open = PyFloat (Finite False (601 / 4)),
      col_high = PyFloat (Finite False (601 / 4)), col_low = PyFloat (Finite False (601 / 4)),
      col_current = PyFloat (Finite False (601 / 4)), col_change = PyFloat (Finite False 0),
      col_change_percent = PyFloat (Finite False 0), col_volume = volume\<rparr>"

abbreviation no_faults :: store_faults where
  "no_faults \<equiv>
     \<lparr>connect_fails = False, cursor_fails = False, execute_fails = (\<lambda>r. False),
      commit_fails = False, summary_fails = False, rollback_fails = False,
      close_fails = False\<rparr>"

section \<open>Properties of the window scheduler\<close>

lemma minutes_to_add_bounds:
  fixes m :: int
  defines "k \<equiv> (if (5 - m mod 5) mod 5 = 0 then 5 else (5 - m mod 5) mod 5)"
  shows "k = 5 - m mod 5"
proof -
  have r: "0 \<le> m mod 5" "m mod 5 < 5" by simp_all
  then consider "m mod 5 = 0" | "m mod 5 = 1" | "m mod 5 = 2" | "m mod 5 = 3" | "m mod 5 = 4"
    by linarith
  then show ?thesis
    by cases (simp_all add: k_def)
qed

lemma dt_less_by_minute:
  assumes "ordinal a < ordinal b
           \<or> (ordinal a = ordinal b \<and> hour a < hour b)
           \<or> (ordinal a = ordinal b \<and> hour a = hour b \<and> minute a < minute b)"
  shows "dt_less a b"
  using assms unfolding dt_less_def by blast

text \<open>Adding \<open>k\<close> minutes, for \<open>0 \<le> k\<close>, without the range check: the fields of the
  sum and its minute count.\<close>

lemma carry_fields:
  fixes t :: int
  assumes "0 \<le> t"
  shows "0 \<le> t mod 1440 div 60" "t mod 1440 div 60 < 24" "0 \<le> t mod 60" "t mod 60 < 60"
    "1440 * (t div 1440) + 60 * (t mod 1440 div 60) + t mod 60 = t"
proof -
  have a: "0 \<le> t mod 1440" "t mod 1440 < 1440" by simp_all
  then show "0 \<le> t mod 1440 div 60" "t mod 1440 div 60 < 24" by simp_all
  show "0 \<le> t mod 60" "t mod 60 < 60" by simp_all
  have "t mod 1440 mod 60 = t mod 60" by (simp add: mod_mod_cancel)
  then have "60 * (t mod 1440 div 60) + t mod 60 = t mod 1440"
    by (metis mult_div_mod_eq)
  then show "1440 * (t div 1440) + 60 * (t mod 1440 div 60) + t mod 60 = t"
    by (metis add.assoc mult_div_mod_eq)
qed

lemma mod5_of_minutes: "((h::int) * 60 + m + k) mod 5 = (m + k) mod 5"
proof -
  have "h * 60 + m + k = 5 * (h * 12) + (m + k)" by simp
  then show ?thesis by (simp only: mod_mult_self4)
qed

text \<open>What \<^verbatim>\<open>get_next_scrape_time\<close> computes, for a well-formed reading: with
  \<open>k = 5 - minute mod 5\<close> and \<open>t\<close> the minute of the day plus \<open>k\<close>.\<close>

lemma get_next_scrape_time_unfold:
  fixes now_pk :: datetime
  defines "k \<equiv> 5 - int (minute now_pk) mod 5"
  defines "t \<equiv> int (hour now_pk) * 60 + int (minute now_pk) + k"
  shows "get_next_scrape_time now_pk =
     (if MINORDINAL \<le> ordinal now_pk + t div 1440 \<and> ordinal now_pk + t div 1440 \<le> MAXORDINAL
      then Inr (now_pk\<lparr>ordinal := ordinal now_pk + t div 1440,
                       hour := nat (t mod 1440 div 60), minute := nat (t mod 60),
                       second := 0, microsecond := 0\<rparr>)
      else Inl OverflowError)"
proof -
  have e: "(if (5 - int (minute now_pk) mod 5) mod 5 = 0 then 5
         else (5 - int (minute now_pk) mod 5) mod 5) = k"
    unfolding k_def by (rule minutes_to_add_bounds)
  have "get_next_scrape_time now_pk
      = py_bind (add_minutes now_pk k) (\<lambda>next_time. Inr (replace_seconds next_time))"
    unfolding get_next_scrape_time_def SCRAPE_INTERVAL_MINUTES_def Let_def e ..
  then show ?thesis
    by (simp add: add_minutes_def in_range_def py_bind_def replace_seconds_def t_def Let_def)
qed

text \<open>
  Claim C3, as the code has it. For every well-formed clock reading except those of the
  last five minutes of 9999-12-31, \<^verbatim>\<open>get_next_scrape_time\<close> returns the next 5-minute
  boundary: a well-formed instant whose minute is a multiple of the interval counted from
  the top of the hour, with seconds and microseconds zero, strictly later than the
  reading and at most one interval later (its minute count is that of the reading,
  rounded down to the interval, plus the interval). A reading exactly on a boundary gives
  exactly the instant 5 minutes later, never itself. For a reading from 9999-12-31
  23:55:00 on, the boundary lies beyond the last date and the addition of line 444 raises
  \<^verbatim>\<open>OverflowError\<close>.
\<close>

theorem get_next_scrape_time_next_boundary:
  assumes "valid_datetime now_pk"
  shows "if ordinal now_pk = MAXORDINAL \<and> hour now_pk = 23 \<and> 55 \<le> minute now_pk
         then get_next_scrape_time now_pk = Inl OverflowError
         else (\<exists>next_time. get_next_scrape_time now_pk = Inr next_time
                \<and> valid_datetime next_time
                \<and> int (minute next_time) mod SCRAPE_INTERVAL_MINUTES = 0
                \<and> second next_time = 0 \<and> microsecond next_time = 0
                \<and> dt_less now_pk next_time
                \<and> minute_count next_time
                    = minute_count now_pk - int (minute now_pk) mod SCRAPE_INTERVAL_MINUTES
                      + SCRAPE_INTERVAL_MINUTES
                \<and> 1 \<le> minute_count next_time - minute_count now_pk
                \<and> minute_count next_time - minute_count now_pk \<le> SCRAPE_INTERVAL_MINUTES
                \<and> (if int (minute now_pk) mod SCRAPE_INTERVAL_MINUTES = 0
                       \<and> second now_pk = 0 \<and> microsecond now_pk = 0
                    then add_minutes now_pk SCRAPE_INTERVAL_MINUTES = Inr next_time
                    else True))"
proof -
  define k where "k = 5 - int (minute now_pk) mod 5"
  define t where "t = int (hour now_pk) * 60 + int (minute now_pk) + k"
  define r where "r = now_pk\<lparr>ordinal := ordinal now_pk + t div 1440,
      hour := nat (t mod 1440 div 60), minute := nat (t mod 60),
      second := 0, microsecond := 0\<rparr>"
  have unfold: "get_next_scrape_time now_pk =
     (if MINORDINAL \<le> ordinal now_pk + t div 1440 \<and> ordinal now_pk + t div 1440 \<le> MAXORDINAL
      then Inr r else Inl OverflowError)"
    unfolding r_def t_def k_def by (rule get_next_scrape_time_unfold)
  from assms have v: "MINORDINAL \<le> ordinal now_pk" "ordinal now_pk \<le> MAXORDINAL"
    "hour now_pk < 24" "minute now_pk < 60"
    by (simp_all add: valid_datetime_def)
  have m5: "0 \<le> int (minute now_pk) mod 5" "int (minute now_pk) mod 5 < 5" by simp_all
  then have kb: "1 \<le> k" "k \<le> 5" by (simp_all add: k_def)
  have t0: "0 \<le> t" "t < 1445" using v kb by (simp_all add: t_def)
  note cf = carry_fields [OF t0(1)]
  have day: "t div 1440 = (if 1440 \<le> t then 1 else 0)"
  proof (cases "1440 \<le> t")
    case True
    define s where "s = t - 1440"
    have s: "0 \<le> s" "s < 1440" using True t0 by (simp_all add: s_def)
    have "t = s + 1440 * 1" by (simp add: s_def)
    then have "t div 1440 = 1 + s div 1440" by (simp only: div_mult_self2)
    with s True show ?thesis by simp
  next
    case False
    with t0 show ?thesis by simp
  qed
  have late: "1440 \<le> t \<longleftrightarrow> hour now_pk = 23 \<and> 55 \<le> minute now_pk"
  proof
    assume a: "1440 \<le> t"
    have h23: "hour now_pk = 23"
    proof (rule ccontr)
      assume "hour now_pk \<noteq> 23"
      with v have "int (hour now_pk) \<le> 22" by simp
      with v kb have "t < 1440" by (simp add: t_def)
      with a show False by simp
    qed
    with a have "60 \<le> int (minute now_pk) + k" by (simp add: t_def)
    then have "55 \<le> minute now_pk"
      using m5 by (simp add: k_def)
    with h23 show "hour now_pk = 23 \<and> 55 \<le> minute now_pk" by simp
  next
    assume a: "hour now_pk = 23 \<and> 55 \<le> minute now_pk"
    with v have "int (minute now_pk) mod 5 = int (minute now_pk) - 55"
      by (simp add: mod_pos_pos_trivial; presburger)
    with a show "1440 \<le> t" by (simp add: t_def k_def)
  qed
  show ?thesis
  proof (cases "ordinal now_pk = MAXORDINAL \<and> hour now_pk = 23 \<and> 55 \<le> minute now_pk")
    case True
    with late have "t div 1440 = 1" by (simp add: day)
    with True show ?thesis by (simp add: unfold)
  next
    case False
    have ok: "MINORDINAL \<le> ordinal now_pk + t div 1440"
      "ordinal now_pk + t div 1440 \<le> MAXORDINAL"
      using v False late by (auto simp: day)
    then have g: "get_next_scrape_time now_pk = Inr r" by (simp add: unfold)
    have ro: "ordinal r = ordinal now_pk + t div 1440"
      and rh: "hour r = nat (t mod 1440 div 60)"
      and rm: "minute r = nat (t mod 60)"
      and rs: "second r = 0" "microsecond r = 0"
      by (simp_all add: r_def)
    have ih: "int (hour r) = t mod 1440 div 60" using cf(1) by (simp add: rh)
    have im: "int (minute r) = t mod 60" using cf(3) by (simp add: rm)
    have valid: "valid_datetime r"
      using ok cf(2) cf(4) by (simp add: valid_datetime_def ro rs ih [symmetric] im [symmetric])
    have aligned: "int (minute r) mod 5 = 0"
    proof -
      have "t mod 60 mod 5 = t mod 5" by (simp add: mod_mod_cancel)
      also have "\<dots> = (int (minute now_pk) + k) mod 5"
        unfolding t_def by (rule mod5_of_minutes)
      also have "\<dots> = 0" unfolding k_def by presburger
      finally show ?thesis by (simp add: im)
    qed
    have count: "minute_count r = minute_count now_pk + k"
    proof -
      have "minute_count r = ordinal now_pk * 1440
          + (1440 * (t div 1440) + 60 * (t mod 1440 div 60) + t mod 60)"
        by (simp add: minute_count_def ro ih im algebra_simps)
      also have "\<dots> = ordinal now_pk * 1440 + t" by (simp only: cf(5))
      finally show ?thesis by (simp add: minute_count_def t_def)
    qed
    have later: "dt_less now_pk r"
    proof (rule dt_less_by_minute, rule ccontr)
      assume n: "\<not> (ordinal now_pk < ordinal r
          \<or> ordinal now_pk = ordinal r \<and> hour now_pk < hour r
          \<or> ordinal now_pk = ordinal r \<and> hour now_pk = hour r \<and> minute now_pk < minute r)"
      have "0 \<le> t div 1440" using t0 by simp
      with n have o: "ordinal r = ordinal now_pk" by (simp add: ro)
      with n have "hour r \<le> hour now_pk" by auto
      moreover from n o have "hour r = hour now_pk \<Longrightarrow> minute r \<le> minute now_pk" by auto
      ultimately have "int (hour r) * 60 + int (minute r)
          \<le> int (hour now_pk) * 60 + int (minute now_pk)"
        using v cf(4) im by (cases "hour r = hour now_pk") auto
      with o have "minute_count r \<le> minute_count now_pk" by (simp add: minute_count_def)
      with count kb show False by simp
    qed
    have exact: "add_minutes now_pk 5 = Inr r"
      if "int (minute now_pk) mod 5 = 0" "second now_pk = 0" "microsecond now_pk = 0"
    proof -
      from that(1) have "k = 5" by (simp add: k_def)
      then have "t = int (hour now_pk) * 60 + int (minute now_pk) + 5" by (simp add: t_def)
      with ok that(2,3) show ?thesis
        by (simp add: add_minutes_def in_range_def Let_def r_def)
    qed
    from False g valid aligned rs later count kb exact show ?thesis
      by (simp add: SCRAPE_INTERVAL_MINUTES_def k_def)
  qed
qed

text \<open>On 2024-01-01 (a Monday) at 10:05:00 the next scrape is at 10:10:00.\<close>

theorem get_next_scrape_time_next_boundary_witness:
  "valid_datetime \<lparr>ordinal = 738886, hour = 10, minute = 5, second = 0, microsecond = 0\<rparr>
   \<and> get_next_scrape_time
        \<lparr>ordinal = 738886, hour = 10, minute = 5, second = 0, microsecond = 0\<rparr>
       = Inr \<lparr>ordinal = 738886, hour = 10, minute = 10, second = 0, microsecond = 0\<rparr>"
proof -
  let ?now = "\<lparr>ordinal = 738886, hour = 10, minute = 5, second = 0, microsecond = 0\<rparr>"
  have v: "valid_datetime ?now"
    by (simp add: valid_datetime_def MINORDINAL_def MAXORDINAL_def)
  have e: "add_minutes ?now SCRAPE_INTERVAL_MINUTES
      = Inr \<lparr>ordinal = 738886, hour = 10, minute = 10, second = 0, microsecond = 0\<rparr>"
    by (simp add: add_minutes_def in_range_def SCRAPE_INTERVAL_MINUTES_def Let_def
        MINORDINAL_def MAXORDINAL_def)
  from get_next_scrape_time_next_boundary [OF v] e
  have "get_next_scrape_time ?now
      = Inr \<lparr>ordinal = 738886, hour = 10, minute = 10, second = 0, microsecond = 0\<rparr>"
    by (auto simp: MAXORDINAL_def SCRAPE_INTERVAL_MINUTES_def)
  with v show ?thesis by simp
qed

text \<open>On 9999-12-31 at 23:57:00, a reading \<^verbatim>\<open>datetime\<close> can hold, the function raises.\<close>

theorem get_next_scrape_time_counterexample:
  "valid_datetime \<lparr>ordinal = 3652059, hour = 23, minute = 57, second = 0, microsecond = 0\<rparr>
   \<and> get_next_scrape_time
        \<lparr>ordinal = 3652059, hour = 23, minute = 57, second = 0, microsecond = 0\<rparr>
       = Inl OverflowError"
  by (simp add: valid_datetime_def MINORDINAL_def MAXORDINAL_def get_next_scrape_time_def
      SCRAPE_INTERVAL_MINUTES_def add_minutes_def in_range_def py_bind_def Let_def)

lemma parse_market_open: "parse_hour_minute PSX_MARKET_OPEN = Inr (9, 30)"
  by (simp add: parse_hour_minute_def PSX_MARKET_OPEN_def ascii_def py_int_str_def to_ascii_def
      c_strip_def c_isspace_def split_sign_def is_digit_def nat_of_digits_def py_bind_def)

lemma parse_market_close: "parse_hour_minute PSX_MARKET_CLOSE = Inr (15, 30)"
  by (simp add: parse_hour_minute_def PSX_MARKET_CLOSE_def ascii_def py_int_str_def to_ascii_def
      c_strip_def c_isspace_def split_sign_def is_digit_def nat_of_digits_def py_bind_def)

text \<open>The market is open on Monday to Friday from 09:30:00 to 15:30:00, both ends
  included.\<close>

lemma is_market_open_window:
  "is_market_open now_pk =
     (weekday now_pk < 5
      \<and> dt_le (now_pk\<lparr>hour := 9, minute := 30, second := 0, microsecond := 0\<rparr>) now_pk
      \<and> dt_le now_pk (now_pk\<lparr>hour := 15, minute := 30, second := 0, microsecond := 0\<rparr>))"
  by (simp add: is_market_open_def is_market_open_try_def parse_market_open parse_market_close
      py_bind_def replace_time_def)

text \<open>The loop over the weekend days keeps the time of day, never goes back, and stops
  on a business day.\<close>

lemma skip_weekend_result:
  "skip_weekend t = Inr d \<Longrightarrow>
     ordinal t \<le> ordinal d \<and> weekday d < 5 \<and> hour d = hour t \<and> minute d = minute t
     \<and> second d = second t \<and> microsecond d = microsecond t"
proof (induction t rule: skip_weekend.induct)
  case (1 tomorrow)
  show ?case
  proof (cases "5 \<le> weekday tomorrow")
    case True
    with "1.prems" obtain n where n: "add_days tomorrow 1 = Inr n" and s: "skip_weekend n = Inr d"
      by (subst (asm) skip_weekend.simps) (auto split: sum.splits)
    from n have f: "n = tomorrow\<lparr>ordinal := ordinal tomorrow + 1\<rparr>"
      by (simp add: add_days_def in_range_def split: if_splits)
    from "1.IH" [OF True n s] show ?thesis by (simp add: f)
  next
    case False
    with "1.prems" have "d = tomorrow"
      by (subst (asm) skip_weekend.simps) simp
    with False show ?thesis by simp
  qed
qed

text \<open>Whatever the reading, the instant the closed-market branch sleeps until lies on a
  later day than the reading: it is never the open time of the day of the reading.\<close>

lemma next_market_open_later_day:
  assumes "next_market_open now_pk = Inr d"
  shows "ordinal now_pk < ordinal d \<and> weekday d < 5 \<and> hour d = 9 \<and> minute d = 30
         \<and> second d = 0 \<and> microsecond d = 0"
proof -
  from assms obtain t1 t2 where a: "add_days now_pk 1 = Inr t1" and s: "skip_weekend t1 = Inr t2"
    and r: "replace_time t2 9 30 = Inr d"
    by (auto simp: next_market_open_def py_bind_def parse_market_open split: sum.splits)
  from a have "ordinal t1 = ordinal now_pk + 1"
    by (auto simp: add_days_def in_range_def split: if_splits)
  moreover note skip_weekend_result [OF s]
  moreover from r have "d = t2\<lparr>hour := 9, minute := 30, second := 0, microsecond := 0\<rparr>"
    by (simp add: replace_time_def)
  ultimately show ?thesis by (simp add: weekday_def)
qed

text \<open>
  Claim C2, against the code. On Monday 2024-01-01 (day number 738886) at 08:00:00, a
  business day before the open time 09:30:00, the market is closed, and today's open
  time 09:30:00 is still ahead. The closed-market branch of \<^verbatim>\<open>run_and_schedule\<close> (lines
  534 to 543) starts from \<^verbatim>\<open>now_pk + timedelta(days=1)\<close> and computes Tuesday 2024-01-02
  09:30:00 as the next market open, where the claim has Monday 09:30:00.
\<close>

theorem next_market_open_skips_today:
  "weekday \<lparr>ordinal = 738886, hour = 8, minute = 0, second = 0, microsecond = 0\<rparr> = 0
   \<and> is_market_open \<lparr>ordinal = 738886, hour = 8, minute = 0, second = 0, microsecond = 0\<rparr>
       = False
   \<and> dt_less \<lparr>ordinal = 738886, hour = 8, minute = 0, second = 0, microsecond = 0\<rparr>
             \<lparr>ordinal = 738886, hour = 9, minute = 30, second = 0, microsecond = 0\<rparr>
   \<and> next_market_open \<lparr>ordinal = 738886, hour = 8, minute = 0, second = 0, microsecond = 0\<rparr>
       = Inr \<lparr>ordinal = 738887, hour = 9, minute = 30, second = 0, microsecond = 0\<rparr>"
proof -
  let ?now = "\<lparr>ordinal = 738886, hour = 8, minute = 0, second = 0, microsecond = 0\<rparr>"
  let ?tue = "\<lparr>ordinal = 738887, hour = 8, minute = 0, second = 0, microsecond = 0\<rparr>"
  have w: "weekday ?now = 0" by (simp add: weekday_def)
  have c: "is_market_open ?now = False"
    by (simp add: is_market_open_window dt_le_def dt_less_def)
  have l: "dt_less ?now \<lparr>ordinal = 738886, hour = 9, minute = 30, second = 0, microsecond = 0\<rparr>"
    by (simp add: dt_less_def)
  have a: "add_days ?now 1 = Inr ?tue"
    by (simp add: add_days_def in_range_def MINORDINAL_def MAXORDINAL_def)
  have s: "skip_weekend ?tue = Inr ?tue"
    by (subst skip_weekend.simps) (simp add: weekday_def)
  have n: "next_market_open ?now
      = Inr \<lparr>ordinal = 738887, hour = 9, minute = 30, second = 0, microsecond = 0\<rparr>"
    by (simp add: next_market_open_def a s parse_market_open py_bind_def replace_time_def)
  from w c l n show ?thesis by simp
qed

text \<open>The other half of the claim holds: on Friday 2024-01-05 at 16:00:00, after the
  close, the branch skips Saturday and Sunday and gives Monday 2024-01-08 09:30:00.\<close>

lemma next_market_open_after_close:
  "next_market_open \<lparr>ordinal = 738890, hour = 16, minute = 0, second = 0, microsecond = 0\<rparr>
     = Inr \<lparr>ordinal = 738893, hour = 9, minute = 30, second = 0, microsecond = 0\<rparr>"
proof -
  let ?fri = "\<lparr>ordinal = 738890, hour = 16, minute = 0, second = 0, microsecond = 0\<rparr>"
  let ?sat = "\<lparr>ordinal = 738891, hour = 16, minute = 0, second = 0, microsecond = 0\<rparr>"
  let ?sun = "\<lparr>ordinal = 738892, hour = 16, minute = 0, second = 0, microsecond = 0\<rparr>"
  let ?mon = "\<lparr>ordinal = 738893, hour = 16, minute = 0, second = 0, microsecond = 0\<rparr>"
  have a: "add_days ?fri 1 = Inr ?sat" "add_days ?sat 1 = Inr ?sun" "add_days ?sun 1 = Inr ?mon"
    by (simp_all add: add_days_def in_range_def MINORDINAL_def MAXORDINAL_def)
  have "skip_weekend ?mon = Inr ?mon"
    by (subst skip_weekend.simps) (simp add: weekday_def)
  then have "skip_weekend ?sun = Inr ?mon"
    by (subst skip_weekend.simps) (simp add: weekday_def a)
  then have "skip_weekend ?sat = Inr ?mon"
    by (subst skip_weekend.simps) (simp add: weekday_def a)
  then show ?thesis
    by (simp add: next_market_open_def a parse_market_open py_bind_def replace_time_def)
qed

section \<open>Properties of the extraction chain\<close>

lemma extract_manual_complete_returns:
  "\<exists>stocks_data. extract_manual_complete drv = Inr stocks_data"
  by (simp add: extract_manual_complete_def split: sum.split)

lemma primary_falls_through:
  assumes "get_raises drv \<noteq> None \<or> wait_raises drv \<noteq> None \<or> script_raises drv \<noteq> None
           \<or> extract_script (page_tables drv) = []"
  shows "extract_correct_psx_data drv = extract_manual_complete drv"
proof -
  obtain stocks_data where m: "extract_manual_complete drv = Inr stocks_data"
    using extract_manual_complete_returns by blast
  from assms show ?thesis
    by (auto simp: extract_correct_psx_data_def extract_correct_try_def m Let_def py_bind_def
        raise_if_def split: option.splits)
qed

text \<open>
  Claim C4. Whatever the page and the session do, \<^verbatim>\<open>extract_correct_psx_data\<close> returns
  a list to its caller: it never raises an \<^verbatim>\<open>Exception\<close> and never returns \<^verbatim>\<open>None\<close>, and
  so does \<^verbatim>\<open>extract_manual_complete\<close>. When the script strategy raises (in
  \<^verbatim>\<open>driver.get\<close>, in the wait or in \<^verbatim>\<open>execute_script\<close>) or yields no record, the result is
  the result of the row walk \<^verbatim>\<open>extract_manual_complete\<close>; when the script yields records,
  they are the result; and when the script strategy fails and the row walk fails as well,
  by raising or by yielding no record, the result is the empty list.
\<close>

theorem extraction_chain_never_raises:
  "(\<exists>stocks_data. extract_correct_psx_data drv = Inr stocks_data)
   \<and> (\<exists>stocks_data. extract_manual_complete drv = Inr stocks_data)
   \<and> (get_raises drv \<noteq> None \<or> wait_raises drv \<noteq> None \<or> script_raises drv \<noteq> None
        \<or> extract_script (page_tables drv) = []
        \<longrightarrow> extract_correct_psx_data drv = extract_manual_complete drv)
   \<and> (get_raises drv = None \<and> wait_raises drv = None \<and> script_raises drv = None
        \<and> extract_script (page_tables drv) \<noteq> []
        \<longrightarrow> extract_correct_psx_data drv = Inr (extract_script (page_tables drv)))
   \<and> ((get_raises drv \<noteq> None \<or> wait_raises drv \<noteq> None \<or> script_raises drv \<noteq> None
         \<or> extract_script (page_tables drv) = [])
        \<and> ((\<exists>e. extract_manual_try drv = Inl e) \<or> extract_manual_try drv = Inr [])
        \<longrightarrow> extract_correct_psx_data drv = Inr [])"
proof (intro conjI impI)
  show "\<exists>stocks_data. extract_manual_complete drv = Inr stocks_data"
    by (rule extract_manual_complete_returns)
  then obtain m where m: "extract_manual_complete drv = Inr m" by blast
  show "\<exists>stocks_data. extract_correct_psx_data drv = Inr stocks_data"
    by (auto simp: extract_correct_psx_data_def extract_correct_try_def m Let_def py_bind_def
        raise_if_def split: option.splits)
next
  assume "get_raises drv \<noteq> None \<or> wait_raises drv \<noteq> None \<or> script_raises drv \<noteq> None
          \<or> extract_script (page_tables drv) = []"
  then show "extract_correct_psx_data drv = extract_manual_complete drv"
    by (rule primary_falls_through)
next
  assume "get_raises drv = None \<and> wait_raises drv = None \<and> script_raises drv = None
          \<and> extract_script (page_tables drv) \<noteq> []"
  then show "extract_correct_psx_data drv = Inr (extract_script (page_tables drv))"
    by (simp add: extract_correct_psx_data_def extract_correct_try_def Let_def py_bind_def
        raise_if_def)
next
  assume both: "(get_raises drv \<noteq> None \<or> wait_raises drv \<noteq> None \<or> script_raises drv \<noteq> None
                 \<or> extract_script (page_tables drv) = [])
                \<and> ((\<exists>e. extract_manual_try drv = Inl e) \<or> extract_manual_try drv = Inr [])"
  then have "extract_correct_psx_data drv = extract_manual_complete drv"
    using primary_falls_through by blast
  moreover from both have "extract_manual_complete drv = Inr []"
    by (auto simp: extract_manual_complete_def)
  ultimately show "extract_correct_psx_data drv = Inr []" by simp
qed

text \<open>A session whose script raises and whose row walk times out: the chain gives the
  empty list.\<close>

theorem extraction_chain_never_raises_witness:
  "extract_correct_psx_data
     \<lparr>get_raises = None, wait_raises = None, script_raises = Some JavascriptException,
      page_tables = [], first_table_rows = Inl TimeoutException\<rparr> = Inr []
   \<and> extract_manual_try
       \<lparr>get_raises = None, wait_raises = None, script_raises = Some JavascriptException,
        page_tables = [], first_table_rows = Inl TimeoutException\<rparr> = Inl TimeoutException"
proof -
  let ?drv = "\<lparr>get_raises = None, wait_raises = None, script_raises = Some JavascriptException,
               page_tables = [], first_table_rows = Inl TimeoutException\<rparr>"
  have t: "extract_manual_try ?drv = Inl TimeoutException"
    by (simp add: extract_manual_try_def py_bind_def)
  have s: "script_raises ?drv \<noteq> None" by simp
  from extraction_chain_never_raises [of ?drv] t s
  have "extract_correct_psx_data ?drv = Inr []" by blast
  with t show ?thesis by blast
qed

section \<open>The two row filters\<close>






section \<open>The text of a float reads back as a float\<close>

lemma is_digit_simps:
  "is_digit c \<Longrightarrow> c \<noteq> 0x2E" "is_digit c \<Longrightarrow> c \<noteq> 0x5F"
  "is_digit c \<Longrightarrow> c \<noteq> 0x2D" "is_digit c \<Longrightarrow> c \<noteq> 0x2B"
  "is_digit c \<Longrightarrow> \<not> is_exp_char c" "is_digit c \<Longrightarrow> \<not> c_isspace c"
  "is_digit c \<Longrightarrow> c < 128"
  by (auto simp: is_digit_def is_exp_char_def c_isspace_def)

lemma digits_of_nat_digits: "list_all is_digit (digits_of_nat n) \<and> digits_of_nat n \<noteq> []"
proof (induction n rule: digits_of_nat.induct)
  case (1 n)
  show ?case
  proof (cases "n < 10")
    case True
    then show ?thesis by (simp add: digits_of_nat.simps [of n] is_digit_def)
  next
    case False
    have "n mod 10 < 10" by simp
    then have "is_digit (0x30 + n mod 10)" unfolding is_digit_def by linarith
    with False 1 show ?thesis
      by (subst digits_of_nat.simps, subst (2) digits_of_nat.simps) simp
  qed
qed

text \<open>Texts made of ASCII characters other than the underscore pass the first two
  stages of \<^verbatim>\<open>float\<close> unchanged.\<close>

lemma digits_plain:
  "list_all is_digit ds \<Longrightarrow> list_all (\<lambda>c. c < 128 \<and> c \<noteq> 0x5F) ds"
  by (auto simp: list_all_iff is_digit_def)

lemma plain_to_ascii:
  assumes "list_all (\<lambda>c. c < 128 \<and> c \<noteq> 0x5F) s"
  shows "remove_underscores (to_ascii s) = Some s"
proof -
  from assms have "list_all (\<lambda>c. c < 128) s" "0x5F \<notin> set s"
    by (auto simp: list_all_iff)
  then show ?thesis by (simp add: to_ascii_def remove_underscores_def)
qed

lemma c_strip_no_space:
  assumes "s \<noteq> []" "\<not> c_isspace (hd s)" "\<not> c_isspace (last s)"
  shows "c_strip s = s"
proof -
  from assms have l: "dropWhile c_isspace s = s" by (cases s) simp_all
  from assms have "rev s \<noteq> []" "\<not> c_isspace (hd (rev s))" by (simp_all add: hd_rev)
  then have "dropWhile c_isspace (rev s) = rev s" by (cases "rev s") simp_all
  then show ?thesis by (simp add: c_strip_def l)
qed

lemma takeWhile_digits_stop:
  assumes "list_all is_digit ip" "\<And>c. is_digit c \<Longrightarrow> P c" "\<not> P x"
  shows "takeWhile P (ip @ x # r) = ip" "dropWhile P (ip @ x # r) = x # r"
  using assms by (simp_all add: list_all_iff)

lemma takeWhile_digits_all:
  assumes "list_all is_digit ip" "\<And>c. is_digit c \<Longrightarrow> P c"
  shows "takeWhile P ip = ip" "dropWhile P ip = []"
  using assms by (simp_all add: list_all_iff)

lemma parse_mantissa_point:
  assumes "ip \<noteq> []" "list_all is_digit ip" "fp \<noteq> []" "list_all is_digit fp"
  shows "parse_mantissa (ip @ 0x2E # fp) = Some (ip, fp)"
proof -
  have t: "takeWhile (\<lambda>c. c \<noteq> 0x2E) (ip @ 0x2E # fp) = ip"
    and d: "dropWhile (\<lambda>c. c \<noteq> 0x2E) (ip @ 0x2E # fp) = 0x2E # fp"
    using assms(2) by (simp_all add: takeWhile_digits_stop is_digit_simps)
  show ?thesis
    using assms by (simp add: parse_mantissa_def t d Let_def all_digits_def)
qed

lemma parse_mantissa_int:
  assumes "ip \<noteq> []" "list_all is_digit ip"
  shows "parse_mantissa ip = Some (ip, [])"
proof -
  have t: "takeWhile (\<lambda>c. c \<noteq> 0x2E) ip = ip"
    and d: "dropWhile (\<lambda>c. c \<noteq> 0x2E) ip = []"
    using assms(2) by (simp_all add: takeWhile_digits_all is_digit_simps)
  show ?thesis
    using assms by (simp add: parse_mantissa_def t d Let_def all_digits_def)
qed

lemma parse_exponent_signed:
  assumes "sg = 0x2B \<or> sg = 0x2D" "ex \<noteq> []" "list_all is_digit ex"
  shows "\<exists>n. parse_exponent (sg # ex) = Some n"
  using assms by (auto simp: parse_exponent_def split_sign_def all_digits_def)

text \<open>A mantissa without exponent characters, alone or followed by a signed exponent.\<close>

lemma parse_number_plain:
  assumes "list_all (\<lambda>c. \<not> is_exp_char c) ms" "parse_mantissa ms = Some (ip, fp)"
  shows "parse_number ms = Some (nat_of_digits (ip @ fp), - int (length fp))"
proof -
  have tw: "takeWhile (\<lambda>c. \<not> is_exp_char c) ms = ms"
    and dw: "dropWhile (\<lambda>c. \<not> is_exp_char c) ms = []"
    using assms(1) by (simp_all add: list_all_iff)
  show ?thesis using assms(2) by (simp add: parse_number_def Let_def tw dw)
qed

lemma parse_number_exp:
  assumes "list_all (\<lambda>c. \<not> is_exp_char c) ms" "parse_mantissa ms = Some (ip, fp)"
    and "sg = 0x2B \<or> sg = 0x2D" "ex \<noteq> []" "list_all is_digit ex"
  shows "\<exists>r. parse_number (ms @ 0x65 # sg # ex) = Some r"
proof -
  have tw: "takeWhile (\<lambda>c. \<not> is_exp_char c) (ms @ 0x65 # sg # ex) = ms"
    and dw: "dropWhile (\<lambda>c. \<not> is_exp_char c) (ms @ 0x65 # sg # ex) = 0x65 # sg # ex"
    using assms(1) by (simp_all add: list_all_iff is_exp_char_def)
  obtain n where n: "parse_exponent (sg # ex) = Some n"
    using parse_exponent_signed [OF assms(3-5)] by blast
  show ?thesis using assms(2) by (simp add: parse_number_def Let_def tw dw n)
qed

lemma digits_no_exp: "list_all is_digit ds \<Longrightarrow> list_all (\<lambda>c. \<not> is_exp_char c) ds"
  by (auto simp: list_all_iff dest: is_digit_simps(5))

lemma pad2_digits:
  "list_all is_digit ds \<Longrightarrow> ds \<noteq> [] \<Longrightarrow> list_all is_digit (pad2 ds) \<and> pad2 ds \<noteq> []"
  by (simp add: pad2_def is_digit_def)

text \<open>Whatever the digits and the position of the point, the text that \<^verbatim>\<open>repr\<close> lays out
  is a decimal number that begins and ends with a digit.\<close>

lemma format_repr_parses:
  assumes ne: "ds \<noteq> []" and dg: "list_all is_digit ds"
  shows "(\<exists>r. parse_number (format_repr ds decpt) = Some r)
         \<and> format_repr ds decpt \<noteq> []
         \<and> is_digit (hd (format_repr ds decpt)) \<and> is_digit (last (format_repr ds decpt))
         \<and> list_all (\<lambda>c. c < 128 \<and> c \<noteq> 0x5F) (format_repr ds decpt)"
proof -
  from ne dg have hd_d: "is_digit (hd ds)" and last_d: "is_digit (last ds)"
    by (simp_all add: list_all_iff)
  have zero_d: "is_digit 0x30" by (simp add: is_digit_def)
  have dot_ne: "\<not> is_exp_char 0x2E" by (simp add: is_exp_char_def)
  have zero_s: "ascii ''0'' = [0x30]" "ascii ''0.'' = [0x30, 0x2E]" "ascii ''.0'' = [0x2E, 0x30]"
    by (simp_all add: ascii_def)
  note pl = digits_plain
  consider (sci) "decpt \<le> - 4 \<or> 16 < decpt"
    | (small) "\<not> (decpt \<le> - 4 \<or> 16 < decpt)" "decpt \<le> 0"
    | (whole) "\<not> (decpt \<le> - 4 \<or> 16 < decpt)" "\<not> decpt \<le> 0" "int (length ds) \<le> decpt"
    | (mixed) "\<not> (decpt \<le> - 4 \<or> 16 < decpt)" "\<not> decpt \<le> 0" "\<not> int (length ds) \<le> decpt"
    by blast
  then show ?thesis
  proof cases
    case sci
    define sg :: nat where "sg = (if decpt - 1 < 0 then 0x2D else 0x2B)"
    define ex where "ex = pad2 (digits_of_nat (nat \<bar>decpt - 1\<bar>))"
    define ms where "ms = hd ds # (if tl ds = [] then [] else 0x2E # tl ds)"
    have f: "format_repr ds decpt = ms @ 0x65 # sg # ex"
      using sci by (simp add: format_repr_def sg_def ex_def ms_def)
    have exd: "list_all is_digit ex" "ex \<noteq> []"
      using pad2_digits [of "digits_of_nat (nat \<bar>decpt - 1\<bar>)"] digits_of_nat_digits
      by (simp_all add: ex_def)
    have sgs: "sg = 0x2B \<or> sg = 0x2D" by (simp add: sg_def)
    have tl_d: "list_all is_digit (tl ds)" using dg by (cases ds) simp_all
    have msx: "list_all (\<lambda>c. \<not> is_exp_char c) ms"
      using hd_d tl_d digits_no_exp [of "tl ds"] dot_ne
      by (simp add: ms_def is_digit_simps)
    have msp: "list_all (\<lambda>c. c < 128 \<and> c \<noteq> 0x5F) ms"
      using hd_d pl [OF tl_d] by (simp add: ms_def is_digit_simps)
    have "\<exists>ip fp. parse_mantissa ms = Some (ip, fp)"
    proof (cases "tl ds = []")
      case True
      then have "ms = [hd ds]" by (simp add: ms_def)
      with hd_d show ?thesis using parse_mantissa_int [of "[hd ds]"] by simp
    next
      case False
      then have "ms = [hd ds] @ 0x2E # tl ds" by (simp add: ms_def)
      with hd_d tl_d False show ?thesis
        using parse_mantissa_point [of "[hd ds]" "tl ds"] by simp
    qed
    then obtain ip fp where "parse_mantissa ms = Some (ip, fp)" by blast
    from parse_number_exp [OF msx this sgs exd(2) exd(1)]
    have "\<exists>r. parse_number (format_repr ds decpt) = Some r" by (simp add: f)
    moreover have "hd (format_repr ds decpt) = hd ds" by (simp add: f ms_def)
    moreover have "last (format_repr ds decpt) = last ex" using exd(2) by (simp add: f)
    moreover have "is_digit (last ex)" using exd by (simp add: list_all_iff)
    moreover have "list_all (\<lambda>c. c < 128 \<and> c \<noteq> 0x5F) (format_repr ds decpt)"
      using msp pl [OF exd(1)] sgs by (auto simp: f)
    ultimately show ?thesis using hd_d by (simp add: f)
  next
    case small
    define fp where "fp = replicate (nat (- decpt)) 0x30 @ ds"
    have f: "format_repr ds decpt = [0x30] @ 0x2E # fp"
      using small by (simp add: format_repr_def fp_def zero_s)
    have fpd: "list_all is_digit fp" "fp \<noteq> []"
      using dg ne zero_d by (auto simp: fp_def list_all_iff)
    have pm: "parse_mantissa ([0x30] @ 0x2E # fp) = Some ([0x30], fp)"
      using parse_mantissa_point [of "[0x30]" fp] fpd zero_d by simp
    have "list_all (\<lambda>c. \<not> is_exp_char c) ([0x30] @ 0x2E # fp)"
      using digits_no_exp [OF fpd(1)] dot_ne by (simp add: is_exp_char_def)
    from parse_number_plain [OF this pm]
    have "\<exists>r. parse_number (format_repr ds decpt) = Some r" by (simp add: f)
    moreover have "last (format_repr ds decpt) = last ds" using ne by (simp add: f fp_def)
    moreover have "list_all (\<lambda>c. c < 128 \<and> c \<noteq> 0x5F) (format_repr ds decpt)"
      using pl [OF fpd(1)] by (simp add: f)
    ultimately show ?thesis using last_d zero_d by (simp add: f)
  next
    case whole
    define ip where "ip = ds @ replicate (nat decpt - length ds) 0x30"
    have f: "format_repr ds decpt = ip @ 0x2E # [0x30]"
      using whole by (simp add: format_repr_def ip_def zero_s)
    have ipd: "list_all is_digit ip" "ip \<noteq> []"
      using dg ne zero_d by (auto simp: ip_def list_all_iff)
    have pm: "parse_mantissa (ip @ 0x2E # [0x30]) = Some (ip, [0x30])"
      using parse_mantissa_point [of ip "[0x30]"] ipd zero_d by simp
    have "list_all (\<lambda>c. \<not> is_exp_char c) (ip @ 0x2E # [0x30])"
      using digits_no_exp [OF ipd(1)] dot_ne by (simp add: is_exp_char_def)
    from parse_number_plain [OF this pm]
    have "\<exists>r. parse_number (format_repr ds decpt) = Some r" by (simp add: f)
    moreover have "hd (format_repr ds decpt) = hd ds" using ne by (simp add: f ip_def)
    moreover have "list_all (\<lambda>c. c < 128 \<and> c \<noteq> 0x5F) (format_repr ds decpt)"
      using pl [OF ipd(1)] by (simp add: f)
    ultimately show ?thesis using hd_d zero_d by (simp add: f)
  next
    case mixed
    define ip where "ip = take (nat decpt) ds"
    define fp where "fp = drop (nat decpt) ds"
    have f: "format_repr ds decpt = ip @ 0x2E # fp"
      using mixed by (simp add: format_repr_def ip_def fp_def)
    have ipd: "list_all is_digit ip" "ip \<noteq> []"
      using dg ne mixed by (auto simp: ip_def list_all_iff dest: in_set_takeD)
    have fpd: "list_all is_digit fp" "fp \<noteq> []"
      using dg ne mixed by (auto simp: fp_def list_all_iff dest: in_set_dropD)
    have pm: "parse_mantissa (ip @ 0x2E # fp) = Some (ip, fp)"
      using parse_mantissa_point [OF ipd(2) ipd(1) fpd(2) fpd(1)] .
    have "list_all (\<lambda>c. \<not> is_exp_char c) (ip @ 0x2E # fp)"
      using digits_no_exp [OF ipd(1)] digits_no_exp [OF fpd(1)] dot_ne by simp
    from parse_number_plain [OF this pm]
    have "\<exists>r. parse_number (format_repr ds decpt) = Some r" by (simp add: f)
    moreover have "hd (format_repr ds decpt) = hd ip" using ipd(2) by (simp add: f)
    moreover have "last (format_repr ds decpt) = last fp" using fpd(2) by (simp add: f)
    moreover have "is_digit (hd ip)" "is_digit (last fp)"
      using ipd fpd by (simp_all add: list_all_iff)
    moreover have "list_all (\<lambda>c. c < 128 \<and> c \<noteq> 0x5F) (format_repr ds decpt)"
      using pl [OF ipd(1)] pl [OF fpd(1)] by (simp add: f)
    ultimately show ?thesis by (simp add: f)
  qed
qed

lemma ascii_lower_digit: "is_digit c \<Longrightarrow> ascii_lower c = c"
  by (simp add: is_digit_def ascii_lower_def)

lemma ascii_words:
  "ascii ''inf'' = [0x69, 0x6E, 0x66]" "ascii ''nan'' = [0x6E, 0x61, 0x6E]"
  "ascii ''infinity'' = [0x69, 0x6E, 0x66, 0x69, 0x6E, 0x69, 0x74, 0x79]"
  "ascii ''-inf'' = [0x2D, 0x69, 0x6E, 0x66]" "ascii ''0'' = [0x30]" "ascii ''-'' = [0x2D]"
  "ascii ''0.0'' = [0x30, 0x2E, 0x30]"
  by (simp_all add: ascii_def)

lemma py_float_special:
  "py_float (ascii ''nan'') = Inr NaN" "py_float (ascii ''inf'') = Inr (Infinity False)"
  "py_float (ascii ''-inf'') = Inr (Infinity True)"
  by (simp_all add: py_float_def ascii_words to_ascii_def remove_underscores_def c_strip_def
      c_isspace_def split_sign_def ascii_lower_def)

lemma py_float_zero_text: "py_float (ascii ''0'') = Inr (Finite False 0)"
  by (simp add: py_float_def ascii_words to_ascii_def remove_underscores_def c_strip_def
      c_isspace_def split_sign_def ascii_lower_def parse_number_def parse_mantissa_def
      all_digits_def is_digit_def is_exp_char_def nat_of_digits_def make_float_def)

lemma lower_starts_with_digit:
  assumes "body \<noteq> []" "is_digit (hd body)"
  shows "map ascii_lower body \<noteq> ascii ''inf''" "map ascii_lower body \<noteq> ascii ''infinity''"
    "map ascii_lower body \<noteq> ascii ''nan''"
proof -
  from assms obtain c cs where b: "body = c # cs" "is_digit c" by (cases body) auto
  then have "hd (map ascii_lower body) = c" by (simp add: ascii_lower_digit)
  moreover from b have "c \<noteq> 0x69" "c \<noteq> 0x6E" by (auto simp: is_digit_def)
  ultimately show "map ascii_lower body \<noteq> ascii ''inf''"
    "map ascii_lower body \<noteq> ascii ''infinity''" "map ascii_lower body \<noteq> ascii ''nan''"
    by (auto simp: ascii_words)
qed

text \<open>A decimal number that begins and ends with a digit, with or without a minus sign
  before it, is read by \<^verbatim>\<open>float\<close> as a finite number.\<close>

lemma py_float_literal:
  assumes ne: "body \<noteq> []" and h: "is_digit (hd body)" and l: "is_digit (last body)"
    and pl: "list_all (\<lambda>c. c < 128 \<and> c \<noteq> 0x5F) body"
    and p: "parse_number body = Some (m, e)"
  shows "py_float ((if neg then ascii ''-'' else []) @ body)
         = Inr (make_float neg (of_nat m * pow10 e))"
proof -
  define s where "s = (if neg then ascii ''-'' else []) @ body"
  have "list_all (\<lambda>c. c < 128 \<and> c \<noteq> 0x5F) s"
    using pl by (simp add: s_def ascii_words)
  then have ru: "remove_underscores (to_ascii s) = Some s" by (rule plain_to_ascii)
  have "\<not> c_isspace (hd s)"
  proof (cases neg)
    case True
    then show ?thesis by (simp add: s_def c_isspace_def ascii_words)
  next
    case False
    with ne have "hd s = hd body" by (simp add: s_def)
    with h show ?thesis by (simp add: is_digit_simps)
  qed
  moreover have "\<not> c_isspace (last s)" using l ne by (simp add: s_def is_digit_simps)
  moreover have "s \<noteq> []" using ne by (simp add: s_def)
  ultimately have st: "c_strip s = s" by (rule c_strip_no_space [rotated 1])
  have sp: "split_sign s = (neg, body)"
  proof (cases neg)
    case True
    then show ?thesis by (simp add: s_def split_sign_def ascii_words)
  next
    case False
    from ne h obtain c cs where "body = c # cs" "c \<noteq> 0x2D" "c \<noteq> 0x2B"
      by (cases body) (auto dest: is_digit_simps)
    with False show ?thesis by (simp add: s_def split_sign_def)
  qed
  show ?thesis
    using lower_starts_with_digit [OF ne h] p
    by (simp add: py_float_def s_def [symmetric] ru st sp Let_def)
qed

text \<open>\<^verbatim>\<open>float(str(x))\<close> never raises.\<close>

lemma py_float_py_str: "\<exists>y. py_float (py_str x) = Inr y"
proof (cases x)
  case (Finite neg q)
  show ?thesis
  proof (cases "q \<le> 0")
    case True
    have "parse_mantissa ([0x30] @ 0x2E # [0x30]) = Some ([0x30], [0x30])"
      by (rule parse_mantissa_point) (simp_all add: is_digit_def)
    then have "\<exists>r. parse_number (ascii ''0.0'') = Some r"
      using parse_number_plain [of "ascii ''0.0''" "[0x30]" "[0x30]"]
      by (simp add: ascii_words is_exp_char_def)
    then obtain r where "parse_number (ascii ''0.0'') = Some r" by blast
    then obtain m e where "parse_number (ascii ''0.0'') = Some (m, e)" by (cases r) simp
    from py_float_literal [OF _ _ _ _ this, of neg]
    have "\<exists>y. py_float ((if neg then ascii ''-'' else []) @ ascii ''0.0'') = Inr y"
      by (simp add: is_digit_def ascii_words)
    with True Finite show ?thesis by (simp add: py_str_def)
  next
    case False
    obtain m k where mk: "shortest_digits 17 q 1 = (m, k)" by (cases "shortest_digits 17 q 1")
    define all_ds where "all_ds = digits_of_nat (nat m)"
    define ds0 where "ds0 = rev (dropWhile (\<lambda>c. c = 0x30) (rev all_ds))"
    define ds where "ds = (if ds0 = [] then ascii ''0'' else ds0)"
    have rp: "repr_pos q = format_repr ds (int (length all_ds) + k)"
      by (simp only: repr_pos_def mk all_ds_def ds0_def ds_def Let_def prod.case)
    have "list_all is_digit all_ds" using digits_of_nat_digits by (simp add: all_ds_def)
    then have "list_all is_digit ds0"
      by (auto simp: ds0_def list_all_iff dest: set_dropWhileD)
    then have dsd: "list_all is_digit ds" "ds \<noteq> []"
      by (simp_all add: ds_def is_digit_def ascii_words)
    from format_repr_parses [OF dsd(2) dsd(1), of "int (length all_ds) + k"]
    obtain r where "parse_number (repr_pos q) = Some r" "repr_pos q \<noteq> []"
      "is_digit (hd (repr_pos q))" "is_digit (last (repr_pos q))"
      "list_all (\<lambda>c. c < 128 \<and> c \<noteq> 0x5F) (repr_pos q)"
      by (auto simp: rp)
    moreover obtain m' e where "r = (m', e)" by (cases r)
    ultimately have "\<exists>y. py_float ((if neg then ascii ''-'' else []) @ repr_pos q) = Inr y"
      using py_float_literal [of "repr_pos q" m' e neg] by simp
    then show ?thesis using False Finite by (simp add: py_str_def)
  qed
next
  case (Infinity neg)
  then show ?thesis by (cases neg) (simp_all add: py_str_def py_float_special)
next
  case NaN
  then show ?thesis by (simp add: py_str_def py_float_special)
qed

lemma clean_numeric_value_cases:
  "clean_numeric_value v = ascii ''0'' \<or> (\<exists>x. clean_numeric_value v = py_str x)"
  by (auto simp: clean_numeric_value_def clean_numeric_try_def py_bind_def Let_def
      split: sum.splits)

lemma py_float_clean_numeric_value: "\<exists>y. py_float (clean_numeric_value v) = Inr y"
  using clean_numeric_value_cases [of v] py_float_py_str py_float_zero_text by metis

section \<open>Evaluating the normalisation on given texts\<close>

lemma replace_from_absent:
  assumes "old \<noteq> []" "hd old \<notin> set s"
  shows "replace_from old new s = s"
  using assms
proof (induction s)
  case Nil
  then show ?case by (simp add: replace_from.simps)
next
  case (Cons c cs)
  from Cons.prems have "\<not> startswith (c # cs) old"
    by (cases old) (auto simp: startswith_def)
  with Cons show ?case by (simp add: replace_from.simps)
qed

lemma replace_absent: "old \<noteq> [] \<Longrightarrow> hd old \<notin> set s \<Longrightarrow> replace s old new = s"
  by (simp add: replace_def replace_from_absent)

lemma cleaned_text_plain:
  assumes "s \<noteq> []" "\<not> py_isspace (hd s)" "\<not> py_isspace (last s)"
    and "set s \<inter> {0x2C, 0x20, 0x25, 0x28, 0x29, 0x24, 0x52, 0x50, 0x20A8, 0x2D} = {}"
  shows "cleaned_text s = s"
proof -
  from assms have l: "lstrip s = s" by (cases s) (simp_all add: lstrip_def)
  from assms have "rev s \<noteq> []" "\<not> py_isspace (hd (rev s))" by (simp_all add: hd_rev)
  then have "dropWhile py_isspace (rev s) = rev s" by (cases "rev s") simp_all
  then have st: "strip s = s" by (simp add: strip_def rstrip_def l)
  have w: "ascii '','' = [0x2C]" "ascii '' '' = [0x20]" "ascii ''%'' = [0x25]"
    "ascii ''('' = [0x28]" "ascii '')'' = [0x29]" "ascii ''$'' = [0x24]"
    "ascii ''Rs.'' = [0x52, 0x73, 0x2E]" "ascii ''PKR'' = [0x50, 0x4B, 0x52]"
    "ascii ''--'' = [0x2D, 0x2D]" "ascii ''---'' = [0x2D, 0x2D, 0x2D]" "ascii ''-'' = [0x2D]"
    by (simp_all add: ascii_def)
  from assms(4) have r: "\<And>old new. old \<noteq> [] \<Longrightarrow>
      hd old \<in> {0x2C, 0x20, 0x25, 0x28, 0x29, 0x24, 0x52, 0x50, 0x20A8, 0x2D}
      \<Longrightarrow> replace s old new = s"
    by (rule_tac replace_absent) auto
  from assms(1,4) have "\<not> startswith s [0x2D]"
    by (cases s) (auto simp: startswith_def)
  then show ?thesis
    by (simp add: cleaned_text_def st w r rupee_sign_def Let_def)
qed

lemma E1: "cleaned_text (ascii ''NaN'') = ascii ''NaN''"
  by (rule cleaned_text_plain) (simp_all add: ascii_def py_isspace_def)

lemma E2: "cleaned_text (ascii ''150.25'') = ascii ''150.25''"
  by (rule cleaned_text_plain) (simp_all add: ascii_def py_isspace_def)

section \<open>Evaluating the rounding to a double\<close>

lemma pow2_powi: "pow2 e = 2 powi e"
  by (simp add: pow2_def power_int_def inverse_eq_divide power_one_over)

lemma pow10_powi: "pow10 e = 10 powi e"
  by (simp add: pow10_def power_int_def inverse_eq_divide power_one_over)

text \<open>The difference of the lengths of numerator and denominator in base \<open>b\<close> is the
  floor of the logarithm of the quotient, or one more.\<close>

lemma floorlog_quotient:
  fixes a c b :: nat
  assumes a: "0 < a" and c: "0 < c" and b: "1 < b"
  defines "d \<equiv> int (floorlog b a) - int (floorlog b c)"
  shows "(of_nat b :: rat) powi (d - 1) \<le> of_nat a / of_nat c"
    and "of_nat a / of_nat c < (of_nat b :: rat) powi (d + 1)"
proof -
  define la where "la = floorlog b a"
  define lc where "lc = floorlog b c"
  from floorlog_bounds [OF a b] have ba: "b ^ (la - 1) \<le> a" "a < b ^ la" by (simp_all add: la_def)
  from floorlog_bounds [OF c b] have bc: "b ^ (lc - 1) \<le> c" "c < b ^ lc" by (simp_all add: lc_def)
  have la1: "1 \<le> la" using ba(2) a by (cases la) simp_all
  have lc1: "1 \<le> lc" using bc(2) c by (cases lc) simp_all
  have bpos: "(0::rat) < of_nat b" using b by simp
  have bne: "(of_nat b :: rat) \<noteq> 0" using b by simp
  have ra: "(of_nat b :: rat) ^ (la - 1) \<le> of_nat a" "(of_nat a :: rat) < of_nat b ^ la"
    using ba by (simp_all flip: of_nat_power)
  have rc: "(of_nat b :: rat) ^ (lc - 1) \<le> of_nat c" "(of_nat c :: rat) < of_nat b ^ lc"
    using bc by (simp_all flip: of_nat_power)
  have cpos: "(0::rat) < of_nat c" using c by simp
  have d: "d = int la - int lc" by (simp add: d_def la_def lc_def)
  have lo: "(of_nat b :: rat) powi (d - 1) = of_nat b ^ (la - 1) / of_nat b ^ lc"
  proof -
    have "d - 1 = int (la - 1) - int lc" using la1 by (simp add: d)
    then show ?thesis using bne by (simp add: power_int_diff)
  qed
  have hi: "(of_nat b :: rat) powi (d + 1) = of_nat b ^ la / of_nat b ^ (lc - 1)"
  proof -
    have "d + 1 = int la - int (lc - 1)" using lc1 by (simp add: d)
    then show ?thesis using bne by (simp add: power_int_diff)
  qed
  have "(of_nat b :: rat) ^ (la - 1) / of_nat b ^ lc \<le> of_nat a / of_nat c"
    using ra(1) rc(2) cpos bpos by (intro frac_le) simp_all
  then show "(of_nat b :: rat) powi (d - 1) \<le> of_nat a / of_nat c" by (simp add: lo)
  have "(0::rat) < of_nat b ^ (lc - 1)" using bpos by simp
  then have "(of_nat a :: rat) / of_nat c < of_nat b ^ la / of_nat b ^ (lc - 1)"
    using ra(2) rc(1) cpos by (intro frac_less) simp_all
  then show "of_nat a / of_nat c < (of_nat b :: rat) powi (d + 1)" by (simp add: hi)
qed

lemma powi_bracket_unique:
  fixes q :: rat
  assumes "1 < b" "b powi x \<le> q" "q < b powi (x + 1)" "b powi y \<le> q" "q < b powi (y + 1)"
  shows "x = y"
proof (rule ccontr)
  assume "x \<noteq> y"
  then consider "x + 1 \<le> y" | "y + 1 \<le> x" by linarith
  then show False
  proof cases
    case 1
    then have "b powi (x + 1) \<le> b powi y" using assms(1) by (intro power_int_increasing) simp_all
    with assms show False by simp
  next
    case 2
    then have "b powi (y + 1) \<le> b powi x" using assms(1) by (intro power_int_increasing) simp_all
    with assms show False by simp
  qed
qed

lemma quotient_of_pos:
  assumes "0 < q" "quotient_of q = (a, c)"
  shows "0 < a" "0 < c" "q = of_nat (nat a) / of_nat (nat c)"
proof -
  from assms(2) show c: "0 < c" by (rule quotient_of_denom_pos)
  from assms(2) have q: "q = of_int a / of_int c" by (rule quotient_of_div)
  with assms(1) c show a: "0 < a" by (simp add: zero_less_divide_iff)
  from a c q show "q = of_nat (nat a) / of_nat (nat c)" by simp
qed

text \<open>\<open>floor_log2\<close> and \<open>floor_log10\<close> are what their names say; so a bracket of two
  powers fixes their result.\<close>

lemma floor_log2_eqI:
  assumes q: "0 < q" and lo: "pow2 d \<le> q" and hi: "q < pow2 (d + 1)"
  shows "floor_log2 q = d"
proof -
  obtain a c where ac: "quotient_of q = (a, c)" by (cases "quotient_of q")
  note p = quotient_of_pos [OF q ac]
  define e where "e = int (floorlog 2 (nat a)) - int (floorlog 2 (nat c))"
  have f: "floor_log2 q = (if pow2 e \<le> q then e else e - 1)"
    by (simp add: floor_log2_def ac bitlen_def e_def)
  from floorlog_quotient [of "nat a" "nat c" 2] p
  have b: "2 powi (e - 1) \<le> q" "q < 2 powi (e + 1)" by (simp_all add: e_def)
  have "(if pow2 e \<le> q then e else e - 1) = d"
  proof (cases "pow2 e \<le> q")
    case True
    with b(2) lo hi have "e = d"
      by (intro powi_bracket_unique [of 2 e q d]) (simp_all add: pow2_powi)
    with True show ?thesis by simp
  next
    case False
    with b(1) lo hi have "e - 1 = d"
      by (intro powi_bracket_unique [of 2 "e - 1" q d]) (simp_all add: pow2_powi)
    with False show ?thesis by simp
  qed
  with f show ?thesis by simp
qed

lemma floor_log10_eqI:
  assumes q: "0 < q" and lo: "pow10 d \<le> q" and hi: "q < pow10 (d + 1)"
  shows "floor_log10 q = d"
proof -
  obtain a c where ac: "quotient_of q = (a, c)" by (cases "quotient_of q")
  note p = quotient_of_pos [OF q ac]
  define e where "e = int (floorlog 10 (nat a)) - int (floorlog 10 (nat c))"
  have f: "floor_log10 q = (if pow10 e \<le> q then e else e - 1)"
    by (simp add: floor_log10_def ac e_def)
  from floorlog_quotient [of "nat a" "nat c" 10] p
  have b: "10 powi (e - 1) \<le> q" "q < 10 powi (e + 1)" by (simp_all add: e_def)
  have "(if pow10 e \<le> q then e else e - 1) = d"
  proof (cases "pow10 e \<le> q")
    case True
    with b(2) lo hi have "e = d"
      by (intro powi_bracket_unique [of 10 e q d]) (simp_all add: pow10_powi)
    with True show ?thesis by simp
  next
    case False
    with b(1) lo hi have "e - 1 = d"
      by (intro powi_bracket_unique [of 10 "e - 1" q d]) (simp_all add: pow10_powi)
    with False show ?thesis by simp
  qed
  with f show ?thesis by simp
qed

lemma round_half_even_near: "\<bar>of_int (round_half_even x) - x\<bar> \<le> 1 / 2"
proof -
  define f where "f = \<lfloor>x\<rfloor>"
  have "of_int f \<le> x" "x < of_int f + 1"
    using floor_correct [of x] by (simp_all add: f_def)
  then show ?thesis
    unfolding round_half_even_def Let_def f_def [symmetric]
    by (auto simp: abs_if split: if_splits)
qed

lemma round_half_even_of_int: "round_half_even (of_int n) = n"
  by (simp add: round_half_even_def)

text \<open>A positive rational \<open>q\<close> in the bracket \<open>2\<^sup>d \<le> q < 2\<^sup>d\<^sup>+\<^sup>1\<close> of the normal range, whose
  quotient by the spacing \<open>2\<^sup>d\<^sup>-\<^sup>5\<^sup>2\<close> is an integer, is a double: rounding leaves it as it is.
  And rounding moves no number by more than half the spacing.\<close>

lemma round_double_exact:
  assumes q: "0 < q" and lo: "pow2 d \<le> q" and hi: "q < pow2 (d + 1)"
    and d: "- 1022 \<le> d" "d \<le> 1023" and n: "q / pow2 (d - 52) = of_int n"
  shows "round_double q = Some q"
proof -
  have e: "max (min (floor_log2 q) 1023) (- 1022) - 52 = d - 52"
    using d by (simp add: floor_log2_eqI [OF q lo hi])
  have p: "pow2 (d - 52) \<noteq> 0" by (simp add: pow2_powi)
  from n p have r: "of_int n * pow2 (d - 52) = q" by (simp add: field_simps)
  have "pow2 (d + 1) \<le> pow2 1024"
    unfolding pow2_powi using d by (intro power_int_increasing) simp_all
  with hi have "\<not> pow2 1024 \<le> q" by simp
  then show ?thesis
    by (simp add: round_double_def e Let_def n round_half_even_of_int r)
qed

lemma round_double_differs:
  assumes q: "0 < q" and lo: "pow2 d \<le> q" and hi: "q < pow2 (d + 1)"
    and d: "- 1022 \<le> d" "d \<le> 1023" and far: "pow2 (d - 52) / 2 < \<bar>r - q\<bar>"
  shows "round_double q \<noteq> Some r"
proof
  assume a: "round_double q = Some r"
  have e: "max (min (floor_log2 q) 1023) (- 1022) - 52 = d - 52"
    using d by (simp add: floor_log2_eqI [OF q lo hi])
  have p: "0 < pow2 (d - 52)" by (simp add: pow2_powi)
  from a have r: "r = of_int (round_half_even (q / pow2 (d - 52))) * pow2 (d - 52)"
    by (simp add: round_double_def e Let_def split: if_splits)
  have "r - q = (of_int (round_half_even (q / pow2 (d - 52))) - q / pow2 (d - 52))
      * pow2 (d - 52)"
    using p by (simp add: r field_simps)
  then have "\<bar>r - q\<bar> = \<bar>of_int (round_half_even (q / pow2 (d - 52))) - q / pow2 (d - 52)\<bar>
      * pow2 (d - 52)"
    using p by (simp only: abs_mult abs_of_pos)
  also have "\<dots> \<le> 1 / 2 * pow2 (d - 52)"
    using p round_half_even_near [of "q / pow2 (d - 52)"]
    by (intro mult_right_mono) simp_all
  finally show False using far by simp
qed

text \<open>One round of the search for the shortest digits.\<close>

lemma repr_candidate_none:
  assumes "floor_log10 q = L" "k = L - int n + 1" "lo = \<lfloor>q / pow10 k\<rfloor>"
    and "round_double (of_int lo * pow10 k) \<noteq> Some q"
    and "round_double (of_int (lo + 1) * pow10 k) \<noteq> Some q"
  shows "repr_candidate q n = None"
  using assms by (simp add: repr_candidate_def Let_def)

lemma repr_candidate_exact:
  assumes "floor_log10 q = L" "k = L - int n + 1" "q / pow10 k = of_int lo"
    and "round_double q = Some q"
    and "round_double (of_int (lo + 1) * pow10 k) \<noteq> Some q"
  shows "repr_candidate q n = Some (lo, k)"
proof -
  have p: "pow10 k \<noteq> 0" by (simp add: pow10_powi)
  with assms(3) have "of_int lo * pow10 k = q" by (simp add: field_simps)
  with assms show ?thesis by (simp add: repr_candidate_def Let_def)
qed

lemma shortest_digits_found:
  "repr_candidate q n = Some r \<Longrightarrow> shortest_digits (Suc fuel) q n = r"
  by simp

lemma shortest_digits_next:
  "repr_candidate q n = None \<Longrightarrow>
     shortest_digits (Suc fuel) q n = shortest_digits fuel q (Suc n)"
  by simp

section \<open>Evaluating \<^verbatim>\<open>float\<close> and \<^verbatim>\<open>str\<close> on given numbers\<close>

lemma py_float_decimal:
  assumes "ip \<noteq> []" "list_all is_digit ip" "fp \<noteq> []" "list_all is_digit fp"
  shows "py_float ((if neg then ascii ''-'' else []) @ ip @ 0x2E # fp)
         = Inr (make_float neg (of_nat (nat_of_digits (ip @ fp)) * pow10 (- int (length fp))))"
proof (rule py_float_literal)
  show "ip @ 0x2E # fp \<noteq> []" by simp
  show "is_digit (hd (ip @ 0x2E # fp))" using assms(1,2) by (cases ip) simp_all
  show "is_digit (last (ip @ 0x2E # fp))" using assms(3,4) by (simp add: list_all_iff)
  show "list_all (\<lambda>c. c < 128 \<and> c \<noteq> 0x5F) (ip @ 0x2E # fp)"
    using digits_plain [OF assms(2)] digits_plain [OF assms(4)] by simp
  have "list_all (\<lambda>c. \<not> is_exp_char c) (ip @ 0x2E # fp)"
    using digits_no_exp [OF assms(2)] digits_no_exp [OF assms(4)] by (simp add: is_exp_char_def)
  then show "parse_number (ip @ 0x2E # fp)
      = Some (nat_of_digits (ip @ fp), - int (length fp))"
    using parse_mantissa_point [OF assms] by (rule parse_number_plain)
qed

lemma py_float_integer:
  assumes "ip \<noteq> []" "list_all is_digit ip"
  shows "py_float ((if neg then ascii ''-'' else []) @ ip)
         = Inr (make_float neg (of_nat (nat_of_digits ip)))"
proof -
  have "parse_number ip = Some (nat_of_digits (ip @ []), - int (length ([]::str)))"
    using digits_no_exp [OF assms(2)] parse_mantissa_int [OF assms] by (rule parse_number_plain)
  then have p: "parse_number ip = Some (nat_of_digits ip, 0)" by simp
  have "py_float ((if neg then ascii ''-'' else []) @ ip)
      = Inr (make_float neg (of_nat (nat_of_digits ip) * pow10 0))"
    using assms digits_plain [OF assms(2)]
    by (intro py_float_literal [OF _ _ _ _ p]) (simp_all add: list_all_iff)
  then show ?thesis by (simp add: pow10_def)
qed

lemma digits_of_nat_eval:
  "n < 10 \<Longrightarrow> digits_of_nat n = [0x30 + n]"
  "10 \<le> n \<Longrightarrow> digits_of_nat n = digits_of_nat (n div 10) @ [0x30 + n mod 10]"
  by (simp_all add: digits_of_nat.simps [of n])

lemma py_str_finite:
  assumes "0 < q" "shortest_digits 17 q 1 = (m, k)"
  shows "py_str (Finite neg q) =
     (if neg then ascii ''-'' else [])
     @ format_repr (if rev (dropWhile (\<lambda>c. c = 0x30) (rev (digits_of_nat (nat m)))) = []
                    then ascii ''0''
                    else rev (dropWhile (\<lambda>c. c = 0x30) (rev (digits_of_nat (nat m)))))
         (int (length (digits_of_nat (nat m))) + k)"
proof -
  have "repr_pos q =
     format_repr (if rev (dropWhile (\<lambda>c. c = 0x30) (rev (digits_of_nat (nat m)))) = []
                  then ascii ''0''
                  else rev (dropWhile (\<lambda>c. c = 0x30) (rev (digits_of_nat (nat m)))))
       (int (length (digits_of_nat (nat m))) + k)"
    by (simp only: repr_pos_def assms(2) Let_def prod.case)
  then show ?thesis using assms(1) by (simp add: py_str_def)
qed

lemma floor_rat_numeral: "\<lfloor>(numeral a :: rat) / numeral b\<rfloor> = numeral a div numeral b"
  using floor_divide_of_int_eq [of "numeral a" "numeral b", where ?'a = rat] by simp

text \<open>The number \<open>150.25\<close>.\<close>

lemma double_150_25: "round_double (601 / 4) = Some (601 / 4)"
  by (rule round_double_exact [where d = 7 and n = "601 * 2 ^ 43"]) (simp_all add: pow2_def)

lemma py_float_150_25: "py_float (ascii ''150.25'') = Inr (Finite False (601 / 4))"
  using py_float_decimal [of "[0x31, 0x35, 0x30]" "[0x32, 0x35]" False]
  by (simp add: ascii_def is_digit_def nat_of_digits_def pow10_def make_float_def double_150_25)

lemma shortest_digits_150_25: "shortest_digits 17 (601 / 4) 1 = (15025, - 2)"
proof -
  let ?q = "601 / 4 :: rat"
  have L: "floor_log10 ?q = 2"
    by (rule floor_log10_eqI) (simp_all add: pow10_def)
  have differs: "round_double r \<noteq> Some ?q"
    if "64 \<le> r" "r < 256" "1 / 1000 < \<bar>?q - r\<bar>" for r
  proof (cases "r < 128")
    case True
    show ?thesis
      by (rule round_double_differs [where d = 6]) (use that True in \<open>simp_all add: pow2_def\<close>)
  next
    case False
    show ?thesis
      by (rule round_double_differs [where d = 7]) (use that False in \<open>simp_all add: pow2_def\<close>)
  qed
  have c1: "repr_candidate ?q 1 = None"
    by (rule repr_candidate_none [OF L, where k = 2 and lo = 1])
       (simp_all add: pow10_def differs floor_rat_numeral)
  have c2: "repr_candidate ?q 2 = None"
    by (rule repr_candidate_none [OF L, where k = 1 and lo = 15])
       (simp_all add: pow10_def differs floor_rat_numeral)
  have c3: "repr_candidate ?q 3 = None"
    by (rule repr_candidate_none [OF L, where k = 0 and lo = 150])
       (simp_all add: pow10_def differs floor_rat_numeral)
  have c4: "repr_candidate ?q 4 = None"
    by (rule repr_candidate_none [OF L, where k = "- 1" and lo = 1502])
       (simp_all add: pow10_def differs floor_rat_numeral)
  have c5: "repr_candidate ?q 5 = Some (15025, - 2)"
    by (rule repr_candidate_exact [OF L])
       (simp_all add: pow10_def differs double_150_25)
  have "shortest_digits (Suc (Suc (Suc (Suc (Suc 12))))) ?q (Suc 0) = (15025, - 2)"
    using c1 c2 c3 c4 c5 by (simp add: eval_nat_numeral)
  then show ?thesis by (simp add: eval_nat_numeral)
qed

lemma py_str_150_25: "py_str (Finite False (601 / 4)) = ascii ''150.25''"
  using py_str_finite [OF _ shortest_digits_150_25, of False]
  by (simp add: digits_of_nat_eval format_repr_def ascii_def)

lemma clean_150_25: "clean_numeric_value (ascii ''150.25'') = ascii ''150.25''"
proof -
  have c: "cleaned_text (ascii ''150.25'') = ascii ''150.25''"
    by (rule cleaned_text_plain) (simp_all add: ascii_def py_isspace_def)
  have s: "ascii ''150.25'' \<notin> set sentinels" "ascii ''150.25'' \<noteq> []"
    "ascii ''150.25'' \<noteq> ascii ''-''"
    by (simp_all add: sentinels_def ascii_def)
  show ?thesis
    using s by (simp add: clean_numeric_value_def clean_numeric_try_def c py_float_150_25
        py_bind_def py_str_150_25)
qed

lemma clean_numeric_value_eval:
  assumes "v \<noteq> []" "v \<notin> set sentinels" "cleaned_text v = c" "c \<noteq> []" "c \<noteq> ascii ''-''"
  shows "py_float c = Inr x \<Longrightarrow> clean_numeric_value v = py_str x"
    and "py_float c = Inl e \<Longrightarrow> clean_numeric_value v = ascii ''0''"
  using assms by (simp_all add: clean_numeric_value_def clean_numeric_try_def py_bind_def)

text \<open>The number \<open>5\<close>, with either sign.\<close>

lemma double_5: "round_double 5 = Some 5"
  by (rule round_double_exact [where d = 2 and n = "5 * 2 ^ 50"]) (simp_all add: pow2_def)

lemma shortest_digits_5: "shortest_digits 17 5 1 = (5, 0)"
proof -
  have L: "floor_log10 5 = 0"
    by (rule floor_log10_eqI) (simp_all add: pow10_def)
  have "round_double 6 \<noteq> Some 5"
    by (rule round_double_differs [where d = 2]) (simp_all add: pow2_def)
  then have c: "repr_candidate 5 1 = Some (5, 0)"
    by (intro repr_candidate_exact [OF L]) (simp_all add: pow10_def double_5)
  have e: "(17::nat) = Suc 16" by simp
  show ?thesis unfolding e using c by (rule shortest_digits_found)
qed

lemma py_str_5: "py_str (Finite neg 5) = (if neg then ascii ''-5.0'' else ascii ''5.0'')"
  using py_str_finite [OF _ shortest_digits_5, of neg]
  by (simp add: digits_of_nat_eval format_repr_def ascii_def)

lemma py_float_5:
  "py_float (ascii ''5'') = Inr (Finite False 5)" "py_float (ascii ''-5'') = Inr (Finite True 5)"
  "py_float (ascii ''5.0'') = Inr (Finite False 5)"
  "py_float (ascii ''-5.0'') = Inr (Finite True 5)"
  using py_float_integer [of "[0x35]" False] py_float_integer [of "[0x35]" True]
    py_float_decimal [of "[0x35]" "[0x30]" False] py_float_decimal [of "[0x35]" "[0x30]" True]
  by (simp_all add: ascii_def is_digit_def nat_of_digits_def pow10_def make_float_def double_5)

lemma cleaned_text_minus_5: "cleaned_text (ascii ''-5'') = ascii ''-5''"
  by (simp add: cleaned_text_def ascii_def strip_def lstrip_def rstrip_def py_isspace_def
      replace_def replace_from.simps startswith_def rupee_sign_def)

lemma clean_5:
  "clean_numeric_value (ascii ''5'') = ascii ''5.0''"
  "clean_numeric_value (ascii ''-5'') = ascii ''-5.0''"
proof -
  have s: "ascii ''5'' \<noteq> []" "ascii ''5'' \<notin> set sentinels" "ascii ''5'' \<noteq> ascii ''-''"
    "ascii ''-5'' \<noteq> []" "ascii ''-5'' \<notin> set sentinels" "ascii ''-5'' \<noteq> ascii ''-''"
    by (simp_all add: sentinels_def ascii_def)
  have c: "cleaned_text (ascii ''5'') = ascii ''5''"
    by (rule cleaned_text_plain) (simp_all add: ascii_def py_isspace_def)
  from clean_numeric_value_eval(1) [OF s(1,2) c s(1,3) py_float_5(1)]
  show "clean_numeric_value (ascii ''5'') = ascii ''5.0''" by (simp add: py_str_5)
  from clean_numeric_value_eval(1) [OF s(4,5) cleaned_text_minus_5 s(4,6) py_float_5(2)]
  show "clean_numeric_value (ascii ''-5'') = ascii ''-5.0''" by (simp add: py_str_5)
qed

text \<open>Zero.\<close>

lemma py_float_0_0: "py_float (ascii ''0.0'') = Inr (Finite False 0)"
  using py_float_decimal [of "[0x30]" "[0x30]" False]
  by (simp add: ascii_def is_digit_def nat_of_digits_def make_float_def)

lemma clean_0: "clean_numeric_value (ascii ''0'') = ascii ''0.0''"
proof -
  have s: "ascii ''0'' \<noteq> []" "ascii ''0'' \<notin> set sentinels" "ascii ''0'' \<noteq> ascii ''-''"
    by (simp_all add: sentinels_def ascii_def)
  have c: "cleaned_text (ascii ''0'') = ascii ''0''"
    by (rule cleaned_text_plain) (simp_all add: ascii_def py_isspace_def)
  from clean_numeric_value_eval(1) [OF s(1,2) c s(1,3) py_float_zero_text]
  show ?thesis by (simp add: py_str_def)
qed

text \<open>The texts \<^verbatim>\<open>inf\<close>, \<^verbatim>\<open>NaN\<close> and \<^verbatim>\<open>abc\<close>.\<close>

lemma clean_inf: "clean_numeric_value (ascii ''inf'') = ascii ''inf''"
proof -
  have s: "ascii ''inf'' \<noteq> []" "ascii ''inf'' \<notin> set sentinels" "ascii ''inf'' \<noteq> ascii ''-''"
    by (simp_all add: sentinels_def ascii_def)
  have c: "cleaned_text (ascii ''inf'') = ascii ''inf''"
    by (rule cleaned_text_plain) (simp_all add: ascii_def py_isspace_def)
  from clean_numeric_value_eval(1) [OF s(1,2) c s(1,3) py_float_special(2)]
  show ?thesis by (simp add: py_str_def)
qed

lemma py_float_NaN: "py_float (ascii ''NaN'') = Inr NaN"
  by (simp add: py_float_def ascii_def to_ascii_def remove_underscores_def c_strip_def
      c_isspace_def split_sign_def ascii_lower_def)

lemma clean_NaN: "clean_numeric_value (ascii ''NaN'') = ascii ''nan''"
proof -
  have s: "ascii ''NaN'' \<noteq> []" "ascii ''NaN'' \<notin> set sentinels" "ascii ''NaN'' \<noteq> ascii ''-''"
    by (simp_all add: sentinels_def ascii_def)
  have c: "cleaned_text (ascii ''NaN'') = ascii ''NaN''"
    by (rule cleaned_text_plain) (simp_all add: ascii_def py_isspace_def)
  from clean_numeric_value_eval(1) [OF s(1,2) c s(1,3) py_float_NaN]
  show ?thesis by (simp add: py_str_def)
qed

lemma py_float_abc: "py_float (ascii ''abc'') = Inl ValueError"
  by (simp add: py_float_def ascii_def to_ascii_def remove_underscores_def c_strip_def
      c_isspace_def split_sign_def ascii_lower_def parse_number_def parse_mantissa_def
      is_exp_char_def all_digits_def is_digit_def)

lemma cleaned_text_abc: "cleaned_text (ascii ''abc'') = ascii ''abc''"
  by (rule cleaned_text_plain) (simp_all add: ascii_def py_isspace_def)

section \<open>Properties of the record normalisation\<close>

lemma clean_numeric_value_sentinel:
  "v \<in> set sentinels \<Longrightarrow> clean_numeric_value v = ascii ''0''"
  by (simp add: clean_numeric_value_def)

lemma clean_numeric_value_result:
  "clean_numeric_value v = ascii ''0''
   \<or> (\<exists>x. py_float (cleaned_text v) = Inr x \<and> clean_numeric_value v = py_str x)"
  by (auto simp: clean_numeric_value_def clean_numeric_try_def py_bind_def Let_def
      split: sum.splits)

text \<open>
  Claim C7. \<^verbatim>\<open>clean_numeric_value\<close> returns a string for every input string: the only
  call of its \<^verbatim>\<open>try\<close> body that can raise is \<^verbatim>\<open>float\<close>, and the handler turns that into
  \<^verbatim>\<open>'0'\<close>. It returns \<^verbatim>\<open>'0'\<close> for each of the sentinels \<^verbatim>\<open>''\<close>, \<^verbatim>\<open>'-'\<close>, \<^verbatim>\<open>'N/A'\<close>, \<^verbatim>\<open>'NAN'\<close>,
  \<^verbatim>\<open>'NULL'\<close>, \<^verbatim>\<open>'N/S'\<close> and \<^verbatim>\<open>' '\<close>, and for every input whose cleaned remainder \<^verbatim>\<open>float\<close>
  does not parse; in every other case it returns \<^verbatim>\<open>str\<close> of the float that was parsed.
\<close>

theorem clean_numeric_value_never_raises:
  "clean_numeric_value [] = ascii ''0''
   \<and> clean_numeric_value (ascii ''-'') = ascii ''0''
   \<and> clean_numeric_value (ascii ''N/A'') = ascii ''0''
   \<and> clean_numeric_value (ascii ''NAN'') = ascii ''0''
   \<and> clean_numeric_value (ascii ''NULL'') = ascii ''0''
   \<and> clean_numeric_value (ascii ''N/S'') = ascii ''0''
   \<and> clean_numeric_value (ascii '' '') = ascii ''0''
   \<and> (\<forall>e. py_float (cleaned_text v) = Inl e \<longrightarrow> clean_numeric_value v = ascii ''0'')
   \<and> (\<forall>e. clean_numeric_try v = Inl e \<longrightarrow> clean_numeric_value v = ascii ''0'')
   \<and> (clean_numeric_value v = ascii ''0''
        \<or> (\<exists>x. py_float (cleaned_text v) = Inr x \<and> clean_numeric_value v = py_str x))"
proof -
  have s: "clean_numeric_value [] = ascii ''0''"
    "clean_numeric_value (ascii ''-'') = ascii ''0''"
    "clean_numeric_value (ascii ''N/A'') = ascii ''0''"
    "clean_numeric_value (ascii ''NAN'') = ascii ''0''"
    "clean_numeric_value (ascii ''NULL'') = ascii ''0''"
    "clean_numeric_value (ascii ''N/S'') = ascii ''0''"
    "clean_numeric_value (ascii '' '') = ascii ''0''"
    by (rule clean_numeric_value_sentinel, simp add: sentinels_def)+
  have p: "clean_numeric_value v = ascii ''0''" if "py_float (cleaned_text v) = Inl e" for e
    using that
    by (simp add: clean_numeric_value_def clean_numeric_try_def py_bind_def Let_def)
  have t: "clean_numeric_value v = ascii ''0''" if "clean_numeric_try v = Inl e" for e
    using that by (simp add: clean_numeric_value_def)
  from s p t clean_numeric_value_result [of v] show ?thesis by blast
qed

text \<open>The text \<^verbatim>\<open>abc\<close> is left as it is by the cleaning, \<^verbatim>\<open>float\<close> refuses it, and the
  result is \<^verbatim>\<open>'0'\<close>.\<close>

theorem clean_numeric_value_never_raises_witness:
  "py_float (cleaned_text (ascii ''abc'')) = Inl ValueError
   \<and> clean_numeric_value (ascii ''abc'') = ascii ''0''"
proof -
  have f: "py_float (cleaned_text (ascii ''abc'')) = Inl ValueError"
    by (simp add: cleaned_text_abc py_float_abc)
  with clean_numeric_value_never_raises [of "ascii ''abc''"]
  have "clean_numeric_value (ascii ''abc'') = ascii ''0''" by blast
  with f show ?thesis by simp
qed

text \<open>What \<^verbatim>\<open>validate_stock_data\<close> accepts: a symbol of 1 to 20 characters and a current
  price whose float is neither \<open>\<le> 0\<close> nor \<open>> 100000\<close>; both comparisons are false on a
  NaN.\<close>

lemma validate_stock_data_iff:
  "validate_stock_data stock =
     (\<exists>symbol current x. stock ''symbol'' = Some symbol \<and> symbol \<noteq> [] \<and> length symbol \<le> 20
        \<and> stock ''current'' = Some current
        \<and> py_float (clean_numeric_value current) = Inr x
        \<and> \<not> float_le x 0 \<and> \<not> float_gt x 100000)"
  by (auto simp: validate_stock_data_def validate_stock_try_def getitem_def py_bind_def
      split: option.splits sum.splits)

lemma float_in_range:
  "(\<not> float_le x 0 \<and> \<not> float_gt x 100000) =
     (x = NaN \<or> (\<exists>neg q. x = Finite neg q \<and> 0 < (if neg then - q else q)
                          \<and> (if neg then - q else q) \<le> 100000))"
  by (cases x) (auto simp: float_le_def float_gt_def)

text \<open>
  Claim C6, against the code. The record \<^verbatim>\<open>{'symbol': 'HBL', 'current': 'NaN'}\<close>: the
  text \<^verbatim>\<open>NaN\<close> is not one of the sentinels (only \<^verbatim>\<open>NAN\<close> is), it cleans to \<^verbatim>\<open>nan\<close>, and
  the float of that is a NaN, which is not greater than 0; but neither \<^verbatim>\<open>current_price <=
  0\<close> nor \<^verbatim>\<open>current_price > 100000\<close> holds of it, and \<^verbatim>\<open>validate_stock_data\<close> accepts the
  record. The two examples of the claim hold: a current of \<^verbatim>\<open>0\<close> is rejected and one of
  \<^verbatim>\<open>150.25\<close> is accepted.
\<close>

theorem validate_stock_data_accepts_nan:
  "validate_stock_data [''symbol'' \<mapsto> ascii ''HBL'', ''current'' \<mapsto> ascii ''NaN''] = True
   \<and> clean_numeric_value (ascii ''NaN'') = ascii ''nan''
   \<and> py_float (clean_numeric_value (ascii ''NaN'')) = Inr NaN
   \<and> float_gt NaN 0 = False \<and> float_le NaN 100000 = False
   \<and> validate_stock_data [''symbol'' \<mapsto> ascii ''HBL'', ''current'' \<mapsto> ascii ''0''] = False
   \<and> validate_stock_data [''symbol'' \<mapsto> ascii ''HBL'', ''current'' \<mapsto> ascii ''150.25'']
       = True"
proof -
  have l: "ascii ''HBL'' \<noteq> []" "\<not> 20 < length (ascii ''HBL'')" by (simp_all add: ascii_def)
  have n: "py_float (clean_numeric_value (ascii ''NaN'')) = Inr NaN"
    by (simp add: clean_NaN py_float_special)
  have a: "validate_stock_data [''symbol'' \<mapsto> ascii ''HBL'', ''current'' \<mapsto> ascii ''NaN'']"
    using l by (simp add: validate_stock_data_def validate_stock_try_def getitem_def py_bind_def
        n float_le_def float_gt_def)
  have z: "\<not> validate_stock_data [''symbol'' \<mapsto> ascii ''HBL'', ''current'' \<mapsto> ascii ''0'']"
    using l by (simp add: validate_stock_data_def validate_stock_try_def getitem_def py_bind_def
        clean_0 py_float_0_0 float_le_def)
  have p: "validate_stock_data [''symbol'' \<mapsto> ascii ''HBL'', ''current'' \<mapsto> ascii ''150.25'']"
    using l by (simp add: validate_stock_data_def validate_stock_try_def getitem_def py_bind_def
        clean_150_25 py_float_150_25 float_le_def float_gt_def)
  from a z p n show ?thesis by (simp add: clean_NaN float_le_def float_gt_def)
qed

section \<open>The numeric conversions of the persistence gateway\<close>

lemma price_field_cases:
  "price_field item k = Inl e \<Longrightarrow> e = KeyError \<and> item k = None"
proof (cases "item k")
  case None
  assume "price_field item k = Inl e"
  with None show ?thesis by (simp add: price_field_def getitem_def py_bind_def)
next
  case (Some raw)
  obtain y where "py_float (clean_numeric_value raw) = Inr y"
    using py_float_clean_numeric_value by blast
  moreover assume "price_field item k = Inl e"
  ultimately show ?thesis
    using Some by (simp add: price_field_def getitem_def py_bind_def split: if_splits)
qed

lemma volume_field_cases:
  "volume_field item =
     (case item ''volume'' of None \<Rightarrow> Inl KeyError
      | Some raw \<Rightarrow>
          if clean_numeric_value raw = ascii ''0'' then Inr 0
          else (case py_float (clean_numeric_value raw) of
                  Inl e \<Rightarrow> Inl e
                | Inr NaN \<Rightarrow> Inl ValueError
                | Inr (Infinity neg) \<Rightarrow> Inl OverflowError
                | Inr (Finite neg q) \<Rightarrow> Inr (if neg then - \<lfloor>q\<rfloor> else \<lfloor>q\<rfloor>)))"
  by (simp add: volume_field_def getitem_def py_bind_def py_int_def
      split: option.splits sum.splits pyfloat.splits)

text \<open>
  Claim C10, as the code has it. Whatever the input string, the output of
  \<^verbatim>\<open>clean_numeric_value\<close> is \<^verbatim>\<open>'0'\<close> or \<^verbatim>\<open>str\<close> of a float, and \<^verbatim>\<open>float\<close> parses it: in
  \<^verbatim>\<open>save_to_postgresql\<close> the conversions \<^verbatim>\<open>float(clean_numeric_value(...))\<close> of the seven
  price fields never raise (such a field raises only \<^verbatim>\<open>KeyError\<close>, on a missing key). The
  float can be an infinity or a NaN, though, and then \<^verbatim>\<open>int(float(...))\<close> of the volume
  raises \<^verbatim>\<open>OverflowError\<close> or \<^verbatim>\<open>ValueError\<close>; these are the only cases in which the volume
  conversion raises on a record that has the key.
\<close>

theorem float_of_clean_numeric_value:
  "(\<exists>y. py_float (clean_numeric_value v) = Inr y)
   \<and> (clean_numeric_value v = ascii ''0'' \<or> (\<exists>x. clean_numeric_value v = py_str x))
   \<and> (\<forall>e. price_field item k = Inl e \<longrightarrow> e = KeyError \<and> item k = None)
   \<and> (\<forall>raw e. item ''volume'' = Some raw \<longrightarrow>
         (volume_field item = Inl e) =
           (py_float (clean_numeric_value raw) = Inr NaN \<and> e = ValueError
            \<or> (\<exists>neg. py_float (clean_numeric_value raw) = Inr (Infinity neg))
               \<and> e = OverflowError))"
proof -
  have a: "\<exists>y. py_float (clean_numeric_value v) = Inr y"
    by (rule py_float_clean_numeric_value)
  have b: "clean_numeric_value v = ascii ''0'' \<or> (\<exists>x. clean_numeric_value v = py_str x)"
    using clean_numeric_value_result [of v] by blast
  have c: "\<forall>e. price_field item k = Inl e \<longrightarrow> e = KeyError \<and> item k = None"
    using price_field_cases by blast
  have d: "(volume_field item = Inl e) =
           (py_float (clean_numeric_value raw) = Inr NaN \<and> e = ValueError
            \<or> (\<exists>neg. py_float (clean_numeric_value raw) = Inr (Infinity neg))
               \<and> e = OverflowError)"
    if "item ''volume'' = Some raw" for raw e
  proof -
    obtain y where y: "py_float (clean_numeric_value raw) = Inr y"
      using py_float_clean_numeric_value by blast
    show ?thesis
    proof (cases "clean_numeric_value raw = ascii ''0''")
      case True
      with y have "y = Finite False 0" by (simp add: py_float_zero_text)
      with True y that show ?thesis by (simp add: volume_field_cases)
    next
      case False
      with y that show ?thesis
        by (cases y) (auto simp: volume_field_cases)
    qed
  qed
  from a b c d show ?thesis by blast
qed

theorem float_of_clean_numeric_value_witness:
  "volume_field [''volume'' \<mapsto> ascii ''NaN''] = Inl ValueError
   \<and> py_float (clean_numeric_value (ascii ''NaN'')) = Inr NaN"
proof -
  have n: "py_float (clean_numeric_value (ascii ''NaN'')) = Inr NaN"
    by (simp add: clean_NaN py_float_special)
  have k: "[''volume'' \<mapsto> ascii ''NaN''] ''volume'' = Some (ascii ''NaN'')" by simp
  from float_of_clean_numeric_value [of undefined "[''volume'' \<mapsto> ascii ''NaN'']" undefined] n k
  have "volume_field [''volume'' \<mapsto> ascii ''NaN''] = Inl ValueError" by blast
  with n show ?thesis by simp
qed

section \<open>Properties of the persistence gateway\<close>

subsection \<open>The insert loop\<close>

lemma conflicts_insert:
  "conflicts (insert_on_conflict_do_nothing tbl r) r"
  "conflicts tbl r' \<Longrightarrow> conflicts (insert_on_conflict_do_nothing tbl r) r'"
  by (auto simp: insert_on_conflict_do_nothing_def conflicts_def list_ex_iff)

lemma insert_known_key: "conflicts tbl r \<Longrightarrow> insert_on_conflict_do_nothing tbl r = tbl"
  by (simp add: insert_on_conflict_do_nothing_def)

text \<open>One pass of the loop body: the item is skipped (not valid, or its tuple cannot be
  built), or the store refuses the statement and the transaction is aborted, or the
  statement runs.\<close>

lemma insert_loop_step:
  obtains (skipped)
      "insert_loop env ts (item # items) (conn, n) = insert_loop env ts items (conn, n)"
      "\<not> validate_stock_data item \<or> (\<exists>e. row_data ts item = Inl e)"
    | (refused) r where "validate_stock_data item" "row_data ts item = Inr r"
      "aborted conn \<or> execute_fails env r"
      "insert_loop env ts (item # items) (conn, n)
         = insert_loop env ts items (conn\<lparr>aborted := True\<rparr>, n)"
    | (inserted) r where "validate_stock_data item" "row_data ts item = Inr r"
      "\<not> aborted conn" "\<not> execute_fails env r"
      "insert_loop env ts (item # items) (conn, n)
         = insert_loop env ts items
             (conn\<lparr>working := insert_on_conflict_do_nothing (working conn) r\<rparr>, n + 1)"
proof (cases "validate_stock_data item")
  case False
  then show ?thesis using skipped by simp
next
  case True
  show ?thesis
  proof (cases "row_data ts item")
    case (Inl e)
    with True show ?thesis using skipped by simp
  next
    case (Inr r)
    show ?thesis
    proof (cases "aborted conn \<or> execute_fails env r")
      case True
      with \<open>validate_stock_data item\<close> Inr show ?thesis
        using refused [of r] by (simp add: execute_insert_def after_failed_statement_def)
    next
      case False
      with \<open>validate_stock_data item\<close> Inr show ?thesis
        using inserted [of r] by (simp add: execute_insert_def)
    qed
  qed
qed

declare insert_loop.simps(2) [simp del]

text \<open>The loop never touches the committed table; once the transaction is aborted it
  stays aborted; and every row in the working table was there before or comes from a
  valid item.\<close>

lemma insert_loop_committed:
  "committed (fst (insert_loop env ts items (conn, n))) = committed conn"
proof (induction items arbitrary: conn n)
  case Nil
  show ?case by simp
next
  case (Cons item items)
  show ?case
    by (cases rule: insert_loop_step [where env = env and ts = ts and item = item
          and items = items and conn = conn and n = n])
       (simp_all add: Cons.IH)
qed

lemma insert_loop_aborted:
  "aborted conn \<Longrightarrow> aborted (fst (insert_loop env ts items (conn, n)))"
proof (induction items arbitrary: conn n)
  case Nil
  then show ?case by simp
next
  case (Cons item items)
  show ?case
    by (cases rule: insert_loop_step [where env = env and ts = ts and item = item
          and items = items and conn = conn and n = n])
       (use Cons in simp_all)
qed

lemma insert_loop_rows:
  "r \<in> set (working (fst (insert_loop env ts items (conn, n)))) \<Longrightarrow>
     r \<in> set (working conn)
     \<or> (\<exists>item\<in>set items. validate_stock_data item \<and> row_data ts item = Inr r)"
proof (induction items arbitrary: conn n)
  case Nil
  then show ?case by simp
next
  case (Cons item items)
  show ?case
  proof (cases rule: insert_loop_step [where env = env and ts = ts and item = item
          and items = items and conn = conn and n = n])
    case skipped
    with Cons.prems Cons.IH [of conn n] show ?thesis by auto
  next
    case (refused r')
    with Cons.prems Cons.IH [of "conn\<lparr>aborted := True\<rparr>" n] show ?thesis by auto
  next
    case (inserted r')
    with Cons.prems
      Cons.IH [of "conn\<lparr>working := insert_on_conflict_do_nothing (working conn) r'\<rparr>" "n + 1"]
    show ?thesis
      by (auto simp: insert_on_conflict_do_nothing_def split: if_splits)
  qed
qed

text \<open>When the key of every row the items give is already in the working table, the
  loop leaves the working table as it is, whatever the store refuses.\<close>

lemma insert_loop_known_keys:
  assumes "\<forall>item\<in>set items. validate_stock_data item \<longrightarrow>
             (\<forall>r. row_data ts item = Inr r \<longrightarrow> conflicts (working conn) r)"
  shows "working (fst (insert_loop env ts items (conn, n))) = working conn"
  using assms
proof (induction items arbitrary: conn n)
  case Nil
  show ?case by simp
next
  case (Cons item items)
  show ?case
  proof (cases rule: insert_loop_step [where env = env and ts = ts and item = item
          and items = items and conn = conn and n = n])
    case skipped
    with Cons.prems Cons.IH [of conn n] show ?thesis by simp
  next
    case (refused r')
    with Cons.prems Cons.IH [of "conn\<lparr>aborted := True\<rparr>" n] show ?thesis by simp
  next
    case (inserted r')
    with Cons.prems have "conflicts (working conn) r'" by simp
    then have same: "insert_on_conflict_do_nothing (working conn) r' = working conn"
      by (rule insert_known_key)
    from Cons.prems
      Cons.IH [of "conn\<lparr>working := insert_on_conflict_do_nothing (working conn) r'\<rparr>" "n + 1"]
    show ?thesis by (simp add: inserted(5) same)
  qed
qed

text \<open>When the loop ends with the transaction not aborted, every key that was in the
  working table is still there, and so is the key of every row the items give.\<close>

lemma insert_loop_all_keys:
  assumes "\<not> aborted (fst (insert_loop env ts items (conn, n)))"
  shows "(\<forall>r. conflicts (working conn) r
              \<longrightarrow> conflicts (working (fst (insert_loop env ts items (conn, n)))) r)
         \<and> (\<forall>item\<in>set items. validate_stock_data item \<longrightarrow>
               (\<forall>r. row_data ts item = Inr r
                 \<longrightarrow> conflicts (working (fst (insert_loop env ts items (conn, n)))) r))"
  using assms
proof (induction items arbitrary: conn n)
  case Nil
  show ?case by simp
next
  case (Cons item items)
  show ?case
  proof (cases rule: insert_loop_step [where env = env and ts = ts and item = item
          and items = items and conn = conn and n = n])
    case skipped
    with Cons.prems Cons.IH [of conn n] show ?thesis by auto
  next
    case (refused r')
    have "aborted (fst (insert_loop env ts items (conn\<lparr>aborted := True\<rparr>, n)))"
      by (rule insert_loop_aborted) simp
    with Cons.prems refused(4) show ?thesis by simp
  next
    case (inserted r')
    let ?c = "conn\<lparr>working := insert_on_conflict_do_nothing (working conn) r'\<rparr>"
    from Cons.prems inserted(5)
    have "\<not> aborted (fst (insert_loop env ts items (?c, n + 1)))" by simp
    from Cons.IH [OF this]
    have ih: "\<And>r. conflicts (working ?c) r
          \<Longrightarrow> conflicts (working (fst (insert_loop env ts items (?c, n + 1)))) r"
      and rest: "\<And>i r. i \<in> set items \<Longrightarrow> validate_stock_data i \<Longrightarrow> row_data ts i = Inr r
          \<Longrightarrow> conflicts (working (fst (insert_loop env ts items (?c, n + 1)))) r"
      by blast+
    have w: "working ?c = insert_on_conflict_do_nothing (working conn) r'" by simp
    have old: "conflicts (working (fst (insert_loop env ts items (?c, n + 1)))) r"
      if "conflicts (working conn) r" for r
      using that by (intro ih) (simp only: w conflicts_insert(2))
    have new: "conflicts (working (fst (insert_loop env ts items (?c, n + 1)))) r'"
      by (intro ih) (simp only: w conflicts_insert(1))
    from old new rest inserted(2) show ?thesis
      unfolding inserted(5) by auto
  qed
qed

lemma insert_loop_not_aborted:
  assumes "\<not> aborted conn"
    and "\<forall>item\<in>set items. \<forall>r. row_data ts item = Inr r \<longrightarrow> \<not> execute_fails env r"
  shows "\<not> aborted (fst (insert_loop env ts items (conn, n)))"
  using assms
proof (induction items arbitrary: conn n)
  case Nil
  then show ?case by simp
next
  case (Cons item items)
  show ?case
  proof (cases rule: insert_loop_step [where env = env and ts = ts and item = item
          and items = items and conn = conn and n = n])
    case skipped
    with Cons.prems Cons.IH [of conn n] show ?thesis by simp
  next
    case (refused r')
    with Cons.prems show ?thesis by simp
  next
    case (inserted r')
    with Cons.prems
      Cons.IH [of "conn\<lparr>working := insert_on_conflict_do_nothing (working conn) r'\<rparr>" "n + 1"]
    show ?thesis by simp
  qed
qed

subsection \<open>The stored rows after a call\<close>

text \<open>The table after \<^verbatim>\<open>save_to_postgresql\<close>: as before when the list is empty or
  connecting, opening the cursor or the commit fails; else what the commit made of the
  transaction, whatever happens after the commit.\<close>

lemma save_to_postgresql_store:
  "snd (save_to_postgresql env db stocks_data ts) =
     (if stocks_data = [] \<or> connect_fails env \<or> cursor_fails env \<or> commit_fails env then db
      else committed (commit (fst (insert_loop env ts stocks_data (connect db, 0)))))"
proof -
  obtain conn n where l: "insert_loop env ts stocks_data (connect db, 0) = (conn, n)"
    by (cases "insert_loop env ts stocks_data (connect db, 0)")
  have "committed (fst (insert_loop env ts stocks_data (connect db, 0))) = committed (connect db)"
    by (rule insert_loop_committed)
  then have "committed conn = committed (connect db)" by (simp only: l fst_conv)
  moreover have cc: "committed (connect db) = db" by (simp add: connect_def)
  ultimately have c: "committed conn = db" by simp
  show ?thesis
    by (simp add: save_to_postgresql_def save_try_def save_except_def l c cc Let_def
        rollback_def commit_def)
qed

lemma committed_commit:
  "committed (commit conn) = (if aborted conn then committed conn else working conn)"
  by (simp add: commit_def)

subsection \<open>The tuple of a record\<close>

lemma row_data_fields:
  assumes "row_data ts item = Inr r"
  shows "col_scrape_timestamp r = ts" "volume_field item = Inr (col_volume r)"
    "item ''symbol'' = Some (col_symbol r)"
proof -
  from assms obtain symbol sector listed_in ldcp opn high low current change change_percent
      volume
    where f: "getitem item ''symbol'' = Inr symbol" "volume_field item = Inr volume"
      and r: "r = \<lparr>col_scrape_timestamp = ts, col_symbol = symbol,
            col_sector = sector, col_listed_in = listed_in, col_ldcp = ldcp,
            col_open = opn, col_high = high, col_low = low, col_current = current,
            col_change = change, col_change_percent = change_percent,
            col_volume = volume\<rparr>"
    unfolding row_data_def py_bind_def by (auto split: sum.splits)
  from r show "col_scrape_timestamp r = ts" by simp
  from f r show "volume_field item = Inr (col_volume r)" by simp
  from f r show "item ''symbol'' = Some (col_symbol r)"
    by (simp add: getitem_def split: option.splits)
qed

lemma price_field_eval:
  "item k = Some raw \<Longrightarrow> clean_numeric_value raw = c \<Longrightarrow> c \<noteq> ascii ''0'' \<Longrightarrow> py_float c = Inr x
     \<Longrightarrow> price_field item k = Inr (PyFloat x)"
  by (simp add: price_field_def getitem_def py_bind_def)

lemma volume_field_eval:
  "item ''volume'' = Some raw \<Longrightarrow> clean_numeric_value raw = c \<Longrightarrow> c \<noteq> ascii ''0''
     \<Longrightarrow> py_float c = Inr x \<Longrightarrow> volume_field item = py_int x"
  by (simp add: volume_field_def getitem_def py_bind_def)

lemma not_zero_text: "ascii ''150.25'' \<noteq> ascii ''0''" "ascii ''0.0'' \<noteq> ascii ''0''"
  "ascii ''5.0'' \<noteq> ascii ''0''" "ascii ''-5.0'' \<noteq> ascii ''0''" "ascii ''inf'' \<noteq> ascii ''0''"
  "ascii ''nan'' \<noteq> ascii ''0''"
  by (simp_all add: ascii_def)

text \<open>The sample record: it is valid, and its tuple is the sample row with the volume
  that \<^verbatim>\<open>int(float(...))\<close> gives.\<close>

lemma sample_stock_valid: "validate_stock_data (sample_stock volume)"
proof -
  have l: "ascii ''HBL'' \<noteq> []" "\<not> 20 < length (ascii ''HBL'')" by (simp_all add: ascii_def)
  show ?thesis
    using l by (simp add: validate_stock_data_def validate_stock_try_def getitem_def py_bind_def
        clean_150_25 py_float_150_25 float_le_def float_gt_def)
qed

lemma row_data_sample:
  "row_data sample_time (sample_stock volume) =
     py_bind (volume_field (sample_stock volume)) (\<lambda>n. Inr (sample_row n))"
proof -
  have p: "price_field (sample_stock volume) k = Inr (PyFloat (Finite False (601 / 4)))"
    if "sample_stock volume k = Some (ascii ''150.25'')" for k
    using that clean_150_25 not_zero_text(1) py_float_150_25 by (rule price_field_eval)
  have z: "price_field (sample_stock volume) k = Inr (PyFloat (Finite False 0))"
    if "sample_stock volume k = Some (ascii ''0'')" for k
    using that clean_0 not_zero_text(2) py_float_0_0 by (rule price_field_eval)
  have "price_field (sample_stock volume) ''ldcp'' = Inr (PyFloat (Finite False (601 / 4)))"
    "price_field (sample_stock volume) ''open'' = Inr (PyFloat (Finite False (601 / 4)))"
    "price_field (sample_stock volume) ''high'' = Inr (PyFloat (Finite False (601 / 4)))"
    "price_field (sample_stock volume) ''low'' = Inr (PyFloat (Finite False (601 / 4)))"
    "price_field (sample_stock volume) ''current'' = Inr (PyFloat (Finite False (601 / 4)))"
    "price_field (sample_stock volume) ''change'' = Inr (PyFloat (Finite False 0))"
    "price_field (sample_stock volume) ''change_percent'' = Inr (PyFloat (Finite False 0))"
    by (rule p, simp)+ (rule z, simp)+
  moreover have "getitem (sample_stock volume) ''symbol'' = Inr (ascii ''HBL'')"
    "getitem (sample_stock volume) ''sector'' = Inr (ascii ''Banks'')"
    "getitem (sample_stock volume) ''listed_in'' = Inr (ascii ''KSE100'')"
    by (simp_all add: getitem_def)
  ultimately show ?thesis
    by (simp only: row_data_def py_bind_def sum.case)
qed

lemma volume_field_sample:
  "volume_field (sample_stock (ascii ''5'')) = Inr 5"
  "volume_field (sample_stock (ascii ''-5'')) = Inr (- 5)"
  "volume_field (sample_stock (ascii ''inf'')) = Inl OverflowError"
proof -
  have "volume_field (sample_stock (ascii ''5'')) = py_int (Finite False 5)"
    by (rule volume_field_eval [OF _ clean_5(1) not_zero_text(3) py_float_5(3)]) simp
  then show "volume_field (sample_stock (ascii ''5'')) = Inr 5" by (simp add: py_int_def)
  have "volume_field (sample_stock (ascii ''-5'')) = py_int (Finite True 5)"
    by (rule volume_field_eval [OF _ clean_5(2) not_zero_text(4) py_float_5(4)]) simp
  then show "volume_field (sample_stock (ascii ''-5'')) = Inr (- 5)" by (simp add: py_int_def)
  have "volume_field (sample_stock (ascii ''inf'')) = py_int (Infinity False)"
    by (rule volume_field_eval [OF _ clean_inf not_zero_text(5) py_float_special(2)]) simp
  then show "volume_field (sample_stock (ascii ''inf'')) = Inl OverflowError"
    by (simp add: py_int_def)
qed

subsection \<open>A call on one record\<close>

lemma has_timestamp_insert:
  "col_scrape_timestamp r = ts \<Longrightarrow> has_timestamp (insert_on_conflict_do_nothing db r) ts"
  by (auto simp: has_timestamp_def insert_on_conflict_do_nothing_def conflicts_def list_ex_iff)

lemma connect_fields:
  "committed (connect db) = db" "working (connect db) = db" "aborted (connect db) = False"
  by (simp_all add: connect_def)

lemma save_to_postgresql_one:
  assumes "validate_stock_data item" "row_data ts item = Inr r"
    and "\<not> connect_fails env" "\<not> cursor_fails env" "\<not> execute_fails env r"
  shows "save_to_postgresql env db [item] ts =
     (if close_fails env then Inl InterfaceError
      else if commit_fails env \<or> summary_fails env
           then (if rollback_fails env then Inl InterfaceError else Inr False)
      else Inr True,
      if commit_fails env then db else insert_on_conflict_do_nothing db r)"
proof -
  have l: "insert_loop env ts [item] (connect db, 0)
      = (connect db\<lparr>working := insert_on_conflict_do_nothing db r\<rparr>, 1)"
    using assms by (simp add: insert_loop.simps(2) execute_insert_def connect_fields)
  have t: "has_timestamp (insert_on_conflict_do_nothing db r) ts"
    using row_data_fields(1) [OF assms(2)] by (rule has_timestamp_insert)
  show ?thesis
    using assms(3,4) t
    by (simp add: save_to_postgresql_def save_try_def save_except_def l Let_def rollback_def
        commit_def connect_fields)
qed

lemma save_to_postgresql_skipped:
  assumes "row_data ts item = Inl e" "\<not> connect_fails env" "\<not> cursor_fails env"
    "\<not> commit_fails env" "\<not> close_fails env"
  shows "save_to_postgresql env db [item] ts = (Inr True, db)"
proof -
  have l: "insert_loop env ts [item] (connect db, 0) = (connect db, 0)"
    using assms by (simp add: insert_loop.simps(2))
  show ?thesis
    using assms
    by (simp add: save_to_postgresql_def save_try_def save_except_def l Let_def rollback_def
        commit_def connect_fields)
qed

lemma row_sample_5: "row_data sample_time (sample_stock (ascii ''5'')) = Inr (sample_row 5)"
  by (simp only: row_data_sample volume_field_sample py_bind_def sum.case)

lemma row_sample_minus_5:
  "row_data sample_time (sample_stock (ascii ''-5'')) = Inr (sample_row (- 5))"
  by (simp only: row_data_sample volume_field_sample py_bind_def sum.case)

lemma row_sample_inf:
  "row_data sample_time (sample_stock (ascii ''inf'')) = Inl OverflowError"
  by (simp only: row_data_sample volume_field_sample py_bind_def sum.case)

subsection \<open>Idempotence\<close>

text \<open>A call on a table that already holds the key of every row the records give leaves
  the table as it is, whatever fails during the call.\<close>

lemma save_to_postgresql_known_keys:
  assumes "\<forall>item\<in>set stocks_data. validate_stock_data item \<longrightarrow>
             (\<forall>r. row_data ts item = Inr r \<longrightarrow> conflicts db r)"
  shows "snd (save_to_postgresql env db stocks_data ts) = db"
proof -
  let ?w = "fst (insert_loop env ts stocks_data (connect db, 0))"
  have "working ?w = working (connect db)"
    by (rule insert_loop_known_keys) (use assms in \<open>simp add: connect_def\<close>)
  moreover have "committed ?w = committed (connect db)" by (rule insert_loop_committed)
  ultimately have "committed (commit ?w) = db"
    by (simp add: committed_commit connect_def)
  then show ?thesis by (simp add: save_to_postgresql_store)
qed

text \<open>After a call that was not aborted, the table holds the key of every row the
  records give.\<close>

lemma save_to_postgresql_keys_stored:
  assumes "\<not> aborted (fst (insert_loop env ts stocks_data (connect db, 0)))"
    and "stocks_data \<noteq> []" "\<not> connect_fails env" "\<not> cursor_fails env" "\<not> commit_fails env"
  shows "\<forall>item\<in>set stocks_data. validate_stock_data item \<longrightarrow>
           (\<forall>r. row_data ts item = Inr r
              \<longrightarrow> conflicts (snd (save_to_postgresql env db stocks_data ts)) r)"
proof -
  let ?w = "fst (insert_loop env ts stocks_data (connect db, 0))"
  from assms have "snd (save_to_postgresql env db stocks_data ts) = working ?w"
    by (simp add: save_to_postgresql_store committed_commit)
  with insert_loop_all_keys [OF assms(1)] show ?thesis by simp
qed

text \<open>
  Claim C1. Calling \<^verbatim>\<open>save_to_postgresql\<close> a second time with the same run timestamp and
  the same records leaves the stored rows exactly as after the first call, and so their
  number: for a store that behaves in the second call as in the first and, when the first
  call wrote its rows (it could connect and commit, and the store refused none of them),
  whatever the store does in the second call. For a row whose key
  (\<^verbatim>\<open>scrape_timestamp\<close>, \<^verbatim>\<open>symbol\<close>) is in the table, the insert statement succeeds and
  leaves the table, old row included, as it is.
\<close>

theorem save_to_postgresql_idempotent:
  "snd (save_to_postgresql env (snd (save_to_postgresql env db stocks_data ts)) stocks_data ts)
     = snd (save_to_postgresql env db stocks_data ts)
   \<and> length (snd (save_to_postgresql env (snd (save_to_postgresql env db stocks_data ts))
                    stocks_data ts))
       = length (snd (save_to_postgresql env db stocks_data ts))
   \<and> (\<not> connect_fails env \<and> \<not> cursor_fails env \<and> \<not> commit_fails env
        \<and> (\<forall>item\<in>set stocks_data. \<forall>r. row_data ts item = Inr r \<longrightarrow> \<not> execute_fails env r)
        \<longrightarrow> snd (save_to_postgresql env' (snd (save_to_postgresql env db stocks_data ts))
                   stocks_data ts)
            = snd (save_to_postgresql env db stocks_data ts))
   \<and> (conflicts tbl r \<longrightarrow> insert_on_conflict_do_nothing tbl r = tbl)
   \<and> (conflicts (working conn) r \<and> \<not> aborted conn \<and> \<not> execute_fails env r
        \<longrightarrow> execute_insert env conn r = Inr conn)"
proof -
  let ?w = "fst (insert_loop env ts stocks_data (connect db, 0))"
  let ?db1 = "snd (save_to_postgresql env db stocks_data ts)"
  have wrote: "snd (save_to_postgresql env2 ?db1 stocks_data ts) = ?db1"
    if "\<not> aborted ?w" "stocks_data \<noteq> []" "\<not> connect_fails env" "\<not> cursor_fails env"
      "\<not> commit_fails env" for env2
    by (rule save_to_postgresql_known_keys) (rule save_to_postgresql_keys_stored [OF that])
  have same: "snd (save_to_postgresql env ?db1 stocks_data ts) = ?db1"
  proof (cases "stocks_data = [] \<or> connect_fails env \<or> cursor_fails env \<or> commit_fails env
      \<or> aborted ?w")
    case True
    then have "?db1 = db"
      using insert_loop_committed [of env ts stocks_data "connect db" 0]
      by (auto simp: save_to_postgresql_store committed_commit connect_def)
    then show ?thesis by simp
  next
    case False
    then show ?thesis by (intro wrote) simp_all
  qed
  have other: "snd (save_to_postgresql env' ?db1 stocks_data ts) = ?db1"
    if ok: "\<not> connect_fails env \<and> \<not> cursor_fails env \<and> \<not> commit_fails env
        \<and> (\<forall>item\<in>set stocks_data. \<forall>r. row_data ts item = Inr r \<longrightarrow> \<not> execute_fails env r)"
  proof (cases "stocks_data = []")
    case True
    then show ?thesis by (simp add: save_to_postgresql_def)
  next
    case False
    have "\<not> aborted ?w"
      by (rule insert_loop_not_aborted) (use ok in \<open>simp_all add: connect_def\<close>)
    with False ok show ?thesis by (intro wrote) simp_all
  qed
  have ins: "insert_on_conflict_do_nothing tbl r = tbl" if "conflicts tbl r"
    using that by (rule insert_known_key)
  have exe: "execute_insert env conn r = Inr conn"
    if "conflicts (working conn) r \<and> \<not> aborted conn \<and> \<not> execute_fails env r"
    using that by (simp add: execute_insert_def insert_known_key)
  from same other ins exe show ?thesis by simp
qed

text \<open>The sample record, saved twice into the empty table by a store in which nothing
  fails: both calls return \<^verbatim>\<open>True\<close>, and after each the table holds the one row.\<close>

theorem save_to_postgresql_idempotent_witness:
  "save_to_postgresql no_faults [] [sample_stock (ascii ''5'')] sample_time
     = (Inr True, [sample_row 5])
   \<and> save_to_postgresql no_faults [sample_row 5] [sample_stock (ascii ''5'')] sample_time
     = (Inr True, [sample_row 5])"
proof -
  have first: "save_to_postgresql no_faults [] [sample_stock (ascii ''5'')] sample_time
      = (Inr True, [sample_row 5])"
    using save_to_postgresql_one [OF sample_stock_valid row_sample_5, of no_faults "[]"]
    by (simp add: insert_on_conflict_do_nothing_def conflicts_def)
  have "snd (save_to_postgresql no_faults
          (snd (save_to_postgresql no_faults [] [sample_stock (ascii ''5'')] sample_time))
          [sample_stock (ascii ''5'')] sample_time)
      = snd (save_to_postgresql no_faults [] [sample_stock (ascii ''5'')] sample_time)"
    using save_to_postgresql_idempotent
      [of no_faults "[]" "[sample_stock (ascii ''5'')]" sample_time]
    by blast
  then have stored: "snd (save_to_postgresql no_faults [sample_row 5]
        [sample_stock (ascii ''5'')] sample_time) = [sample_row 5]"
    by (simp only: first snd_conv)
  have "fst (save_to_postgresql no_faults [sample_row 5]
        [sample_stock (ascii ''5'')] sample_time) = Inr True"
    using save_to_postgresql_one [OF sample_stock_valid row_sample_5, of no_faults
        "[sample_row 5]"]
    by simp
  with stored have "save_to_postgresql no_faults [sample_row 5]
        [sample_stock (ascii ''5'')] sample_time = (Inr True, [sample_row 5])"
    by (simp add: prod_eq_iff)
  with first show ?thesis by simp
qed

subsection \<open>Failures of the store\<close>

text \<open>
  Claim C8, as the code has it. When connecting, opening the cursor or the commit fails,
  none of the writes of the call is stored: the table is as before. The function then
  returns \<^verbatim>\<open>False\<close> when the connection could not be made, and otherwise when neither
  \<^verbatim>\<open>conn.rollback()\<close> in the handler nor a \<^verbatim>\<open>close()\<close> in the \<^verbatim>\<open>finally\<close> block raises; an
  exception of one of these leaves the function.
\<close>

theorem save_to_postgresql_failure:
  "stocks_data \<noteq> [] \<and> (connect_fails env \<or> cursor_fails env \<or> commit_fails env) \<longrightarrow>
     snd (save_to_postgresql env db stocks_data ts) = db
     \<and> (connect_fails env \<or> (\<not> rollback_fails env \<and> \<not> close_fails env)
          \<longrightarrow> fst (save_to_postgresql env db stocks_data ts) = Inr False)
     \<and> (\<not> connect_fails env \<and> (rollback_fails env \<or> close_fails env)
          \<longrightarrow> fst (save_to_postgresql env db stocks_data ts) = Inl InterfaceError)"
proof (intro impI)
  assume a: "stocks_data \<noteq> [] \<and> (connect_fails env \<or> cursor_fails env \<or> commit_fails env)"
  obtain conn n where l: "insert_loop env ts stocks_data (connect db, 0) = (conn, n)"
    by (cases "insert_loop env ts stocks_data (connect db, 0)")
  from a have s: "snd (save_to_postgresql env db stocks_data ts) = db"
    by (auto simp: save_to_postgresql_store)
  from a have f: "fst (save_to_postgresql env db stocks_data ts) =
      (if connect_fails env then Inr False
       else if close_fails env \<or> rollback_fails env then Inl InterfaceError else Inr False)"
    by (auto simp: save_to_postgresql_def save_try_def save_except_def l Let_def)
  from s f show "snd (save_to_postgresql env db stocks_data ts) = db
     \<and> (connect_fails env \<or> (\<not> rollback_fails env \<and> \<not> close_fails env)
          \<longrightarrow> fst (save_to_postgresql env db stocks_data ts) = Inr False)
     \<and> (\<not> connect_fails env \<and> (rollback_fails env \<or> close_fails env)
          \<longrightarrow> fst (save_to_postgresql env db stocks_data ts) = Inl InterfaceError)"
    by auto
qed

text \<open>The commit fails on the sample record: \<^verbatim>\<open>False\<close> is returned and the table stays
  empty.\<close>

theorem save_to_postgresql_failure_witness:
  "save_to_postgresql (no_faults\<lparr>commit_fails := True\<rparr>) [] [sample_stock (ascii ''5'')]
     sample_time = (Inr False, [])"
proof -
  let ?env = "no_faults\<lparr>commit_fails := True\<rparr>"
  from save_to_postgresql_failure [of "[sample_stock (ascii ''5'')]" ?env "[]" sample_time]
  have "snd (save_to_postgresql ?env [] [sample_stock (ascii ''5'')] sample_time) = []"
    and "fst (save_to_postgresql ?env [] [sample_stock (ascii ''5'')] sample_time) = Inr False"
    by simp_all
  then show ?thesis by (simp add: prod_eq_iff)
qed

text \<open>When the commit fails and then the rollback fails as well (a lost connection),
  the function raises. And when the summary after the commit fails, the function returns
  \<^verbatim>\<open>False\<close> although the row is committed and stays stored.\<close>

theorem save_to_postgresql_failure_counterexample:
  "save_to_postgresql (no_faults\<lparr>commit_fails := True, rollback_fails := True\<rparr>) []
     [sample_stock (ascii ''5'')] sample_time = (Inl InterfaceError, [])
   \<and> save_to_postgresql (no_faults\<lparr>summary_fails := True\<rparr>) []
     [sample_stock (ascii ''5'')] sample_time = (Inr False, [sample_row 5])"
proof -
  have "save_to_postgresql (no_faults\<lparr>commit_fails := True, rollback_fails := True\<rparr>) []
     [sample_stock (ascii ''5'')] sample_time = (Inl InterfaceError, [])"
    using save_to_postgresql_one [OF sample_stock_valid row_sample_5,
        of "no_faults\<lparr>commit_fails := True, rollback_fails := True\<rparr>" "[]"]
    by simp
  moreover have "save_to_postgresql (no_faults\<lparr>summary_fails := True\<rparr>) []
     [sample_stock (ascii ''5'')] sample_time = (Inr False, [sample_row 5])"
    using save_to_postgresql_one [OF sample_stock_valid row_sample_5,
        of "no_faults\<lparr>summary_fails := True\<rparr>" "[]"]
    by (simp add: insert_on_conflict_do_nothing_def conflicts_def)
  ultimately show ?thesis by simp
qed

subsection \<open>The stored volume\<close>

text \<open>
  Claim C9, as the code has it. Every row that a call adds to the table is the tuple of
  a valid record of the call, and its volume is an integer: \<open>0\<close> when the volume text
  cleans to \<^verbatim>\<open>'0'\<close>, as it does when \<^verbatim>\<open>float\<close> cannot parse its cleaned remainder, and
  otherwise the float of the cleaned text, which is finite, cut off towards zero. Nothing
  keeps that integer from being negative.
\<close>

theorem stored_volume:
  "r \<in> set (snd (save_to_postgresql env db stocks_data ts)) \<and> r \<notin> set db \<longrightarrow>
     (\<exists>item\<in>set stocks_data. \<exists>raw.
        validate_stock_data item \<and> row_data ts item = Inr r \<and> item ''volume'' = Some raw
        \<and> (clean_numeric_value raw = ascii ''0'' \<longrightarrow> col_volume r = 0)
        \<and> ((\<exists>e. py_float (cleaned_text raw) = Inl e) \<longrightarrow> col_volume r = 0)
        \<and> (clean_numeric_value raw \<noteq> ascii ''0'' \<longrightarrow>
             (\<exists>neg q. py_float (clean_numeric_value raw) = Inr (Finite neg q)
                \<and> col_volume r = (if neg then - \<lfloor>q\<rfloor> else \<lfloor>q\<rfloor>))))"
proof (intro impI)
  assume a: "r \<in> set (snd (save_to_postgresql env db stocks_data ts)) \<and> r \<notin> set db"
  let ?w = "fst (insert_loop env ts stocks_data (connect db, 0))"
  have "committed ?w = db"
    using insert_loop_committed [of env ts stocks_data "connect db" 0]
    by (simp add: connect_fields)
  with a have "r \<in> set (working ?w)"
    by (auto simp: save_to_postgresql_store committed_commit split: if_splits)
  from insert_loop_rows [OF this] a
  obtain item where i: "item \<in> set stocks_data" "validate_stock_data item"
    "row_data ts item = Inr r"
    by (auto simp: connect_fields)
  from row_data_fields(2) [OF i(3)] have v: "volume_field item = Inr (col_volume r)" .
  then obtain raw where raw: "item ''volume'' = Some raw"
    by (auto simp: volume_field_cases split: option.splits)
  have zero: "col_volume r = 0" if "clean_numeric_value raw = ascii ''0''"
    using v raw that by (simp add: volume_field_cases)
  have unparsable: "col_volume r = 0" if "\<exists>e. py_float (cleaned_text raw) = Inl e"
  proof -
    from that clean_numeric_value_result [of raw] have "clean_numeric_value raw = ascii ''0''"
      by auto
    then show ?thesis by (rule zero)
  qed
  have parsed: "\<exists>neg q. py_float (clean_numeric_value raw) = Inr (Finite neg q)
      \<and> col_volume r = (if neg then - \<lfloor>q\<rfloor> else \<lfloor>q\<rfloor>)"
    if nz: "clean_numeric_value raw \<noteq> ascii ''0''"
  proof -
    obtain y where y: "py_float (clean_numeric_value raw) = Inr y"
      using py_float_clean_numeric_value by blast
    show ?thesis
    proof (cases y)
      case (Finite neg q)
      with v raw nz y have "col_volume r = (if neg then - \<lfloor>q\<rfloor> else \<lfloor>q\<rfloor>)"
        by (simp add: volume_field_cases)
      with y Finite show ?thesis by simp
    next
      case (Infinity neg)
      with v raw nz y show ?thesis by (simp add: volume_field_cases)
    next
      case NaN
      with v raw nz y show ?thesis by (simp add: volume_field_cases)
    qed
  qed
  from i raw zero unparsable parsed
  show "\<exists>item\<in>set stocks_data. \<exists>raw.
        validate_stock_data item \<and> row_data ts item = Inr r \<and> item ''volume'' = Some raw
        \<and> (clean_numeric_value raw = ascii ''0'' \<longrightarrow> col_volume r = 0)
        \<and> ((\<exists>e. py_float (cleaned_text raw) = Inl e) \<longrightarrow> col_volume r = 0)
        \<and> (clean_numeric_value raw \<noteq> ascii ''0'' \<longrightarrow>
             (\<exists>neg q. py_float (clean_numeric_value raw) = Inr (Finite neg q)
                \<and> col_volume r = (if neg then - \<lfloor>q\<rfloor> else \<lfloor>q\<rfloor>)))"
    by blast
qed

text \<open>The sample record with the volume \<^verbatim>\<open>5\<close>: the row is added, and its volume is the
  float \<open>5.0\<close> cut off, \<open>5\<close>.\<close>

theorem stored_volume_witness:
  "sample_row 5 \<in> set (snd (save_to_postgresql no_faults [] [sample_stock (ascii ''5'')]
                              sample_time))
   \<and> sample_stock (ascii ''5'') ''volume'' = Some (ascii ''5'')
   \<and> py_float (clean_numeric_value (ascii ''5'')) = Inr (Finite False 5)
   \<and> col_volume (sample_row 5) = \<lfloor>5 :: rat\<rfloor>"
proof -
  have s: "save_to_postgresql no_faults [] [sample_stock (ascii ''5'')] sample_time
      = (Inr True, [sample_row 5])"
    using save_to_postgresql_one [OF sample_stock_valid row_sample_5, of no_faults "[]"]
    by (simp add: insert_on_conflict_do_nothing_def conflicts_def)
  then have m: "sample_row 5 \<in> set (snd (save_to_postgresql no_faults []
      [sample_stock (ascii ''5'')] sample_time))"
    by simp
  have f: "py_float (clean_numeric_value (ascii ''5'')) = Inr (Finite False 5)"
    by (simp add: clean_5 py_float_5)
  have n: "clean_numeric_value (ascii ''5'') \<noteq> ascii ''0''"
    by (simp add: clean_5 not_zero_text)
  from stored_volume [of "sample_row 5" no_faults "[]" "[sample_stock (ascii ''5'')]" sample_time]
    m
  obtain raw neg q where "sample_stock (ascii ''5'') ''volume'' = Some raw"
    "clean_numeric_value raw \<noteq> ascii ''0'' \<longrightarrow>
       py_float (clean_numeric_value raw) = Inr (Finite neg q)
       \<and> col_volume (sample_row 5) = (if neg then - \<lfloor>q\<rfloor> else \<lfloor>q\<rfloor>)"
    by auto
  with f n have "col_volume (sample_row 5) = \<lfloor>5 :: rat\<rfloor>" by auto
  with m f show ?thesis by simp
qed

text \<open>The sample record with the volume \<^verbatim>\<open>-5\<close>: it is valid, the call returns \<^verbatim>\<open>True\<close>,
  and the row is stored with the volume \<open>-5\<close>.\<close>

theorem stored_volume_counterexample:
  "save_to_postgresql no_faults [] [sample_stock (ascii ''-5'')] sample_time
     = (Inr True, [sample_row (- 5)])
   \<and> col_volume (sample_row (- 5)) < 0"
  using save_to_postgresql_one [OF sample_stock_valid row_sample_minus_5, of no_faults "[]"]
  by (simp add: insert_on_conflict_do_nothing_def conflicts_def)

subsection \<open>The per-row handler\<close>

text \<open>The sample record with the volume \<^verbatim>\<open>inf\<close>: the text cleans to \<^verbatim>\<open>inf\<close>, \<^verbatim>\<open>float\<close>
  reads it as an infinity, and \<^verbatim>\<open>int\<close> of that raises \<^verbatim>\<open>OverflowError\<close>. The record is
  valid, so building its tuple raises inside the loop, the handler of lines 369 to 371
  skips it, and the call returns \<^verbatim>\<open>True\<close> with nothing stored.\<close>

theorem int_of_float_counterexample:
  "clean_numeric_value (ascii ''inf'') = ascii ''inf''
   \<and> py_float (clean_numeric_value (ascii ''inf'')) = Inr (Infinity False)
   \<and> py_int (Infinity False) = Inl OverflowError
   \<and> validate_stock_data (sample_stock (ascii ''inf''))
   \<and> volume_field (sample_stock (ascii ''inf'')) = Inl OverflowError
   \<and> row_data sample_time (sample_stock (ascii ''inf'')) = Inl OverflowError
   \<and> save_to_postgresql no_faults [] [sample_stock (ascii ''inf'')] sample_time
       = (Inr True, [])"
proof -
  have "save_to_postgresql no_faults [] [sample_stock (ascii ''inf'')] sample_time
       = (Inr True, [])"
    by (rule save_to_postgresql_skipped [OF row_sample_inf]) simp_all
  moreover have "py_float (clean_numeric_value (ascii ''inf'')) = Inr (Infinity False)"
    by (simp add: clean_inf py_float_special)
  moreover have "py_int (Infinity False) = Inl OverflowError" by (simp add: py_int_def)
  ultimately show ?thesis
    using sample_stock_valid [of "ascii ''inf''"]
    by (simp add: clean_inf volume_field_sample row_sample_inf)
qed

end
